theory Spec2Isabelle
  imports Main
begin

section \<open>Abstract syntax\<close>

text \<open>
  The parser builds the syntax tree from dictionaries keyed by \<open>'type'\<close>; the tags that
  occur are \<open>number\<close>, \<open>variable\<close>, \<open>binary_operation\<close> for expressions and \<open>return\<close>,
  \<open>declaration\<close>, \<open>assignment\<close>, \<open>if\<close>, \<open>while\<close> for statements. The operator of a binary
  operation is the lexeme of the operator token, so it stays a string.
\<close>

datatype expr = Number int | Variable string | BinaryOp string expr expr

datatype stmt =
    Return expr
  | Declaration string
  | Assignment string expr
  | If_stmt expr "stmt list" "stmt list"
  | While_stmt expr "stmt list"

datatype func = Function string "stmt list"

datatype program = Program "func list"

section \<open>Decimal rendering of integers\<close>

text \<open>
  The generator formats integers into assembly lines with f-strings; \<open>str_int\<close> is Python's
  \<open>str\<close> on an \<open>int\<close>: an optional minus sign and the decimal digits without leading zeros.
\<close>

definition digit_char :: "nat \<Rightarrow> char" where
  "digit_char d = ''0123456789'' ! d"

function str_nat :: "nat \<Rightarrow> string" where
  "str_nat n = (if n < 10 then [digit_char n] else str_nat (n div 10) @ [digit_char (n mod 10)])"
  by pat_completeness auto
termination
  by (relation "measure id") auto

declare str_nat.simps [simp del]

definition str_int :: "int \<Rightarrow> string" where
  "str_int i = (if i < 0 then CHR ''-'' # str_nat (nat (- i)) else str_nat (nat i))"

section \<open>Code generator\<close>

record CodeGenerator =
  variables :: "string set"
  label_counter :: int
  code :: "string list"

definition CodeGenerator_init :: CodeGenerator where
  "CodeGenerator_init = \<lparr>variables = {}, label_counter = 0, code = []\<rparr>"

text \<open>\<open>emit g line\<close> is \<open>self.code.append(line)\<close>.\<close>

definition emit :: "CodeGenerator \<Rightarrow> string \<Rightarrow> CodeGenerator" where
  "emit g line = g\<lparr>code := code g @ [line]\<rparr>"

definition generate_label :: "CodeGenerator \<Rightarrow> string \<times> CodeGenerator" where
  "generate_label g =
     (let g' = g\<lparr>label_counter := label_counter g + 1\<rparr>
      in (''L'' @ str_int (label_counter g'), g'))"

definition get_variable_offset :: "string \<Rightarrow> int" where
  "get_variable_offset var_name = - 4"

fun generate_expression :: "CodeGenerator \<Rightarrow> expr \<Rightarrow> CodeGenerator" where
  "generate_expression g (Number v) = emit g (''mov $'' @ str_int v @ '', %eax'')"
| "generate_expression g (Variable name) =
     (let var_offset = get_variable_offset name
      in emit g (''mov '' @ str_int var_offset @ ''(%ebp), %eax''))"
| "generate_expression g (BinaryOp op l r) =
     (let g1 = generate_expression g r;
          g2 = emit g1 ''push %eax'';
          g3 = generate_expression g2 l;
          g4 = emit g3 ''pop %ecx''
      in if op = ''+'' then emit g4 ''add %ecx, %eax''
         else if op = ''-'' then emit g4 ''sub %ecx, %eax''
         else if op = ''*'' then emit g4 ''imul %ecx, %eax''
         else if op = ''/'' then emit (emit g4 ''cdq'') ''idiv %ecx''
         else if op = ''=='' then
           emit (emit (emit g4 ''cmp %ecx, %eax'') ''sete %al'') ''movzbl %al, %eax''
         else if op = ''!='' then
           emit (emit (emit g4 ''cmp %ecx, %eax'') ''setne %al'') ''movzbl %al, %eax''
         else if op = ''<'' then
           emit (emit (emit g4 ''cmp %ecx, %eax'') ''setl %al'') ''movzbl %al, %eax''
         else if op = ''>'' then
           emit (emit (emit g4 ''cmp %ecx, %eax'') ''setg %al'') ''movzbl %al, %eax''
         else g4)"

text \<open>
  \<open>generate_statements\<close> is the loop \<open>for stmt in ...: self.generate_statement(stmt)\<close> that
  the function body, both branches of an \<open>if\<close> and the body of a \<open>while\<close> run.
\<close>

function (sequential) generate_statement :: "CodeGenerator \<Rightarrow> stmt \<Rightarrow> CodeGenerator"
  and generate_if :: "CodeGenerator \<Rightarrow> expr \<Rightarrow> stmt list \<Rightarrow> stmt list \<Rightarrow> CodeGenerator"
  and generate_while :: "CodeGenerator \<Rightarrow> expr \<Rightarrow> stmt list \<Rightarrow> CodeGenerator"
  and generate_statements :: "CodeGenerator \<Rightarrow> stmt list \<Rightarrow> CodeGenerator"
where
  "generate_statement g (Return e) =
     (let g1 = generate_expression g e;
          g2 = emit g1 ''mov %eax, %ebx'';
          g3 = emit g2 ''mov $1, %eax''
      in emit g3 ''int $0x80'')"
| "generate_statement g (Declaration name) = g"
| "generate_statement g (Assignment name e) =
     (let g1 = generate_expression g e;
          var_offset = get_variable_offset name
      in emit g1 (''mov %eax, '' @ str_int var_offset @ ''(%ebp)''))"
| "generate_statement g (If_stmt c t e) = generate_if g c t e"
| "generate_statement g (While_stmt c b) = generate_while g c b"
| "generate_if g c t e =
     (let (else_label, g1) = generate_label g;
          (end_label, g2) = generate_label g1;
          g3 = generate_expression g2 c;
          g4 = emit g3 ''cmp $0, %eax'';
          g5 = (if e \<noteq> [] then emit g4 (''je '' @ else_label)
                else emit g4 (''je '' @ end_label));
          g6 = generate_statements g5 t;
          g7 = (if e \<noteq> [] then
                  generate_statements
                    (emit (emit g6 (''jmp '' @ end_label)) (else_label @ '':'')) e
                else g6)
      in emit g7 (end_label @ '':''))"
| "generate_while g c b =
     (let (start_label, g1) = generate_label g;
          (end_label, g2) = generate_label g1;
          g3 = emit g2 (start_label @ '':'');
          g4 = generate_expression g3 c;
          g5 = emit g4 ''cmp $0, %eax'';
          g6 = emit g5 (''je '' @ end_label);
          g7 = generate_statements g6 b;
          g8 = emit g7 (''jmp '' @ start_label)
      in emit g8 (end_label @ '':''))"
| "generate_statements g [] = g"
| "generate_statements g (s # ss) = generate_statements (generate_statement g s) ss"
  by pat_completeness auto
termination
  by (relation "measure (case_sum
        (case_sum (\<lambda>(g, s). 2 * size s)
                  (\<lambda>(g, c, t, e). 2 * (size_list size t + size_list size e) + 1))
        (case_sum (\<lambda>(g, c, b). 2 * size_list size b + 1)
                  (\<lambda>(g, ss). 2 * size_list size ss)))") auto

text \<open>
  The names collected by the first loop of \<open>generate_function\<close>: a Python set filled from
  the statements of the body list itself (statements nested in a block are not visited).
\<close>

definition local_vars :: "stmt list \<Rightarrow> string set" where
  "local_vars body =
     fold (\<lambda>stmt lv. case stmt of Declaration name \<Rightarrow> insert name lv | _ \<Rightarrow> lv) body {}"

fun generate_function :: "CodeGenerator \<Rightarrow> func \<Rightarrow> CodeGenerator" where
  "generate_function g (Function name body) =
     (let g1 = (if name = ''main'' then emit g ''_start:'' else emit g (name @ '':''));
          g2 = emit g1 ''push %ebp'';
          g3 = emit g2 ''mov %esp, %ebp'';
          lv = local_vars body;
          g4 = (if lv \<noteq> {}
                then emit g3 (''sub $'' @ str_int (4 * int (card lv)) @ '', %esp'')
                else g3);
          g5 = generate_statements g4 body;
          g6 = emit g5 ''mov %ebp, %esp'';
          g7 = emit g6 ''pop %ebp'';
          g8 = emit g7 ''ret''
      in emit g8 [])"

fun join :: "string \<Rightarrow> string list \<Rightarrow> string" where
  "join sep [] = []"
| "join sep [x] = x"
| "join sep (x # y # ys) = x @ sep @ join sep (y # ys)"

fun generate :: "CodeGenerator \<Rightarrow> program \<Rightarrow> string \<times> CodeGenerator" where
  "generate g (Program functions) =
     (let g1 = emit g ''.section .text'';
          g2 = emit g1 ''.globl _start'';
          g3 = emit g2 [];
          g4 = foldl generate_function g3 functions
      in (join [CHR 0x0A] (code g4), g4))"


text \<open>The same generator with lines put in front of its buffer; used to state framing.\<close>

definition prepend :: "string list \<Rightarrow> CodeGenerator \<Rightarrow> CodeGenerator" where
  "prepend c g = g\<lparr>code := c @ code g\<rparr>"

section \<open>Reading decimal digits\<close>

text \<open>
  The value of a string of ASCII digits, most significant digit first. It inverts
  \<open>str_nat\<close> and is the digit loop of Python's \<open>int\<close> on a string.
\<close>

definition digit_val :: "char \<Rightarrow> nat" where
  "digit_val c = of_char c - 48"

definition nat_of_digits :: "string \<Rightarrow> nat" where
  "nat_of_digits s = foldl (\<lambda>a c. 10 * a + digit_val c) 0 s"

section \<open>Errors\<close>

text \<open>
  Every failure of the source is a Python exception. The lexer and the parser raise plain
  \<open>Exception\<close> objects that differ in their message only; each message is a constructor
  here, with the values the message is formatted from. \<open>IndexError\<close>, \<open>TypeError\<close> and
  \<open>ValueError\<close> are the exceptions the interpreter itself raises for a list index out of
  range, for subscripting \<open>None\<close>, and for \<open>int\<close> applied to a string that is not a number.
\<close>

datatype kind = KEYWORD | IDENTIFIER | NUMBER | SYMBOL

type_synonym token = "kind \<times> string"

datatype error =
    UnknownChar char
  | UnexpectedEOF
  | SyntaxErr kind "string option" kind string
  | UnknownStatement string
  | UnexpectedToken string
  | IndexError
  | TypeError
  | ValueError

section \<open>Lexer\<close>

text \<open>
  Source text is a list of characters with code points below 256. The character classes
  are those of Python's \<open>str.isspace\<close>, \<open>str.isalpha\<close>, \<open>str.isdigit\<close> and \<open>str.isalnum\<close> on
  these code points.
\<close>

definition isspace :: "char \<Rightarrow> bool" where
  "isspace c = (let n = (of_char c :: nat)
                in (9 \<le> n \<and> n \<le> 13) \<or> (28 \<le> n \<and> n \<le> 32) \<or> n = 133 \<or> n = 160)"

definition isalpha :: "char \<Rightarrow> bool" where
  "isalpha c = (let n = (of_char c :: nat)
                in (65 \<le> n \<and> n \<le> 90) \<or> (97 \<le> n \<and> n \<le> 122) \<or> n = 170 \<or> n = 181
                   \<or> n = 186 \<or> (192 \<le> n \<and> n \<le> 214) \<or> (216 \<le> n \<and> n \<le> 246)
                   \<or> (248 \<le> n \<and> n \<le> 255))"

definition isdigit :: "char \<Rightarrow> bool" where
  "isdigit c = (let n = (of_char c :: nat)
                in (48 \<le> n \<and> n \<le> 57) \<or> n = 178 \<or> n = 179 \<or> n = 185)"

definition isalnum :: "char \<Rightarrow> bool" where
  "isalnum c = (let n = (of_char c :: nat)
                in isalpha c \<or> isdigit c \<or> (188 \<le> n \<and> n \<le> 190))"

definition lexer_keywords :: "string list" where
  "lexer_keywords = [''int'', ''return'', ''if'', ''else'', ''while'']"

definition symbols :: "string list" where
  "symbols = [''='', '';'', ''('', '')'', ''{'', ''}'', ''+'', ''-'', ''*'', ''/'', ''<'', ''>'',
              ''=='', ''!='']"

text \<open>
  \<open>sorted(self.symbols, key=len, reverse=True)\<close>: the two-character symbols before the
  one-character ones. The order among symbols of equal length is the iteration order of a
  Python set and is not fixed; it does not matter, since two different symbols of the same
  length cannot both start at one position.
\<close>

definition sorted_symbols :: "string list" where
  "sorted_symbols = filter (\<lambda>s. length s = 2) symbols @ filter (\<lambda>s. length s = 1) symbols"

text \<open>\<open>startswith src smb pos\<close> is \<open>self.code.startswith(sym, pos)\<close>; \<open>slice\<close> is \<open>self.code[i:j]\<close>.\<close>

definition startswith :: "string \<Rightarrow> string \<Rightarrow> nat \<Rightarrow> bool" where
  "startswith src smb pos = (take (length smb) (drop pos src) = smb)"

definition slice :: "string \<Rightarrow> nat \<Rightarrow> nat \<Rightarrow> string" where
  "slice src i j = take (j - i) (drop i src)"

text \<open>The inner loops \<open>while self.pos < len(self.code) and p(self.code[self.pos])\<close>.\<close>

function scan_while :: "(char \<Rightarrow> bool) \<Rightarrow> string \<Rightarrow> nat \<Rightarrow> nat" where
  "scan_while p src pos =
     (if pos < length src \<and> p (src ! pos) then scan_while p src (pos + 1) else pos)"
  by pat_completeness auto
termination
  by (relation "measure (\<lambda>(p, src, pos). length src - pos)") auto

declare scan_while.simps [simp del]

lemma scan_while_greater:
  "pos < length src \<Longrightarrow> p (src ! pos) \<Longrightarrow> pos < scan_while p src pos"
proof -
  have "pos \<le> scan_while p src pos" for pos
    by (induction p src pos rule: scan_while.induct) (subst scan_while.simps, auto)
  from this [of "pos + 1"] show "pos < length src \<Longrightarrow> p (src ! pos) \<Longrightarrow> ?thesis"
    by (subst scan_while.simps) simp
qed

lemma isalpha_isalnum: "isalpha c \<Longrightarrow> isalnum c"
  by (simp add: isalnum_def)

lemma sorted_symbols_nonempty: "smb \<in> set sorted_symbols \<Longrightarrow> 0 < length smb"
  by (auto simp: sorted_symbols_def)

function tokenize_loop :: "string \<Rightarrow> nat \<Rightarrow> token list \<Rightarrow> error + token list" where
  "tokenize_loop src pos tokens =
     (if pos < length src then
        if isspace (src ! pos) then tokenize_loop src (pos + 1) tokens
        else if isalpha (src ! pos) then
          (let start = pos;
               pos' = scan_while (\<lambda>c. isalnum c \<or> c = CHR ''_'') src pos;
               token_value = slice src start pos'
           in if token_value \<in> set lexer_keywords
              then tokenize_loop src pos' (tokens @ [(KEYWORD, token_value)])
              else tokenize_loop src pos' (tokens @ [(IDENTIFIER, token_value)]))
        else if isdigit (src ! pos) then
          (let start = pos;
               pos' = scan_while isdigit src pos
           in tokenize_loop src pos' (tokens @ [(NUMBER, slice src start pos')]))
        else
          (case find (\<lambda>smb. startswith src smb pos) sorted_symbols of
             Some smb \<Rightarrow> tokenize_loop src (pos + length smb) (tokens @ [(SYMBOL, smb)])
           | None \<Rightarrow> Inl (UnknownChar (src ! pos)))
      else Inr tokens)"
  by pat_completeness auto
termination
proof (relation "measure (\<lambda>(src, pos, tokens). length src - pos)")
  fix src :: string and pos :: nat and tokens :: "token list" and x2 :: string
  assume "pos < length src"
    and "find (\<lambda>smb. startswith src smb pos) sorted_symbols = Some x2"
  then have "x2 \<in> set sorted_symbols"
    by (auto simp: find_Some_iff)
  then have "0 < length x2" by (rule sorted_symbols_nonempty)
  with \<open>pos < length src\<close> have "length src - (pos + length x2) < length src - pos"
    by arith
  then show "((src, pos + length x2, tokens @ [(SYMBOL, x2)]), src, pos, tokens)
        \<in> measure (\<lambda>(src, pos, tokens). length src - pos)"
    by simp
qed (auto intro!: diff_less_mono2 scan_while_greater isalpha_isalnum)

declare tokenize_loop.simps [simp del]

definition tokenize :: "string \<Rightarrow> error + token list" where
  "tokenize src = tokenize_loop src 0 []"

section \<open>Parser\<close>

text \<open>
  The parser is a set of mutually recursive methods over the token list and the cursor
  \<open>pos\<close>. The token list never changes, so each method takes the list and the cursor and
  returns its value with the new cursor. Recursion is bounded by a fuel argument that every
  call decreases; the outcome of a call is that the fuel ran out, that an exception was
  raised, or a value.
\<close>

datatype 'a outcome = OutOfFuel | Raise error | Done 'a

definition bind :: "'a outcome \<Rightarrow> ('a \<Rightarrow> 'b outcome) \<Rightarrow> 'b outcome" where
  "bind m f = (case m of OutOfFuel \<Rightarrow> OutOfFuel | Raise e \<Rightarrow> Raise e | Done x \<Rightarrow> f x)"

text \<open>
  Python's \<open>int\<close> on a string: surrounding whitespace is dropped, one sign is allowed, and
  the rest must be decimal digits, with single underscores allowed between digits.
  Whitespace here is what \<open>int\<close> accepts on code points below 256. (Integers are unbounded;
  the interpreter's configurable limit on the number of digits is not part of the model.)
\<close>

definition int_space :: "char \<Rightarrow> bool" where
  "int_space c = (let n = (of_char c :: nat) in (9 \<le> n \<and> n \<le> 13) \<or> n = 32 \<or> n = 133 \<or> n = 160)"

definition is_decimal :: "char \<Rightarrow> bool" where
  "is_decimal c = (let n = (of_char c :: nat) in 48 \<le> n \<and> n \<le> 57)"

fun valid_digits :: "bool \<Rightarrow> string \<Rightarrow> bool" where
  "valid_digits prev [] = prev"
| "valid_digits prev (c # cs) =
     (if is_decimal c then valid_digits True cs
      else if c = CHR ''_'' \<and> prev then valid_digits False cs
      else False)"

definition py_int :: "string \<Rightarrow> int option" where
  "py_int s =
     (let t = rev (dropWhile int_space (rev (dropWhile int_space s)));
          neg = (t \<noteq> [] \<and> hd t = CHR ''-'');
          body = (if t \<noteq> [] \<and> (hd t = CHR ''-'' \<or> hd t = CHR ''+'') then tl t else t)
      in if valid_digits False body
         then Some ((if neg then - 1 else 1) * int (nat_of_digits (filter (\<lambda>c. c \<noteq> CHR ''_'') body)))
         else None)"

definition current_token :: "token list \<Rightarrow> nat \<Rightarrow> token option" where
  "current_token tokens pos = (if pos < length tokens then Some (tokens ! pos) else None)"

definition eat :: "token list \<Rightarrow> nat \<Rightarrow> kind \<Rightarrow> string option \<Rightarrow> (token \<times> nat) outcome" where
  "eat tokens pos token_type val =
     (case current_token tokens pos of
        None \<Rightarrow> Raise UnexpectedEOF
      | Some token \<Rightarrow>
          if fst token \<noteq> token_type \<or> (val \<noteq> None \<and> snd token \<noteq> the val)
          then Raise (SyntaxErr token_type val (fst token) (snd token))
          else Done (token, pos + 1))"

subsection \<open>Expressions\<close>

text \<open>
  The loop of a precedence tier is a function of its own (\<open>comparison_loop\<close>,
  \<open>addition_loop\<close>, \<open>multiplication_loop\<close>) that carries the variable \<open>left\<close>.
  In \<open>parse_primary\<close>, \<open>token[0]\<close> on the \<open>None\<close> that \<open>current_token\<close> returns at the end of
  the tokens raises \<open>TypeError\<close>.
\<close>

function (sequential) parse_expression :: "nat \<Rightarrow> token list \<Rightarrow> nat \<Rightarrow> (expr \<times> nat) outcome"
  and parse_comparison :: "nat \<Rightarrow> token list \<Rightarrow> nat \<Rightarrow> (expr \<times> nat) outcome"
  and comparison_loop :: "nat \<Rightarrow> token list \<Rightarrow> nat \<Rightarrow> expr \<Rightarrow> (expr \<times> nat) outcome"
  and parse_addition :: "nat \<Rightarrow> token list \<Rightarrow> nat \<Rightarrow> (expr \<times> nat) outcome"
  and addition_loop :: "nat \<Rightarrow> token list \<Rightarrow> nat \<Rightarrow> expr \<Rightarrow> (expr \<times> nat) outcome"
  and parse_multiplication :: "nat \<Rightarrow> token list \<Rightarrow> nat \<Rightarrow> (expr \<times> nat) outcome"
  and multiplication_loop :: "nat \<Rightarrow> token list \<Rightarrow> nat \<Rightarrow> expr \<Rightarrow> (expr \<times> nat) outcome"
  and parse_primary :: "nat \<Rightarrow> token list \<Rightarrow> nat \<Rightarrow> (expr \<times> nat) outcome"
where
  "parse_expression 0 tokens pos = OutOfFuel"
| "parse_expression (Suc n) tokens pos = parse_comparison n tokens pos"
| "parse_comparison 0 tokens pos = OutOfFuel"
| "parse_comparison (Suc n) tokens pos =
     bind (parse_addition n tokens pos) (\<lambda>(left, pos1). comparison_loop n tokens pos1 left)"
| "comparison_loop 0 tokens pos left = OutOfFuel"
| "comparison_loop (Suc n) tokens pos left =
     (case current_token tokens pos of
        None \<Rightarrow> Done (left, pos)
      | Some token \<Rightarrow>
          if snd token \<in> set [''=='', ''!='', ''<'', ''>'', ''<='', ''>='']
          then bind (eat tokens pos SYMBOL None) (\<lambda>(op, pos1).
               bind (parse_addition n tokens pos1) (\<lambda>(right, pos2).
               comparison_loop n tokens pos2 (BinaryOp (snd op) left right)))
          else Done (left, pos))"
| "parse_addition 0 tokens pos = OutOfFuel"
| "parse_addition (Suc n) tokens pos =
     bind (parse_multiplication n tokens pos) (\<lambda>(left, pos1). addition_loop n tokens pos1 left)"
| "addition_loop 0 tokens pos left = OutOfFuel"
| "addition_loop (Suc n) tokens pos left =
     (case current_token tokens pos of
        None \<Rightarrow> Done (left, pos)
      | Some token \<Rightarrow>
          if snd token \<in> set [''+'', ''-'']
          then bind (eat tokens pos SYMBOL None) (\<lambda>(op, pos1).
               bind (parse_multiplication n tokens pos1) (\<lambda>(right, pos2).
               addition_loop n tokens pos2 (BinaryOp (snd op) left right)))
          else Done (left, pos))"
| "parse_multiplication 0 tokens pos = OutOfFuel"
| "parse_multiplication (Suc n) tokens pos =
     bind (parse_primary n tokens pos) (\<lambda>(left, pos1). multiplication_loop n tokens pos1 left)"
| "multiplication_loop 0 tokens pos left = OutOfFuel"
| "multiplication_loop (Suc n) tokens pos left =
     (case current_token tokens pos of
        None \<Rightarrow> Done (left, pos)
      | Some token \<Rightarrow>
          if snd token \<in> set [''*'', ''/'']
          then bind (eat tokens pos SYMBOL None) (\<lambda>(op, pos1).
               bind (parse_primary n tokens pos1) (\<lambda>(right, pos2).
               multiplication_loop n tokens pos2 (BinaryOp (snd op) left right)))
          else Done (left, pos))"
| "parse_primary 0 tokens pos = OutOfFuel"
| "parse_primary (Suc n) tokens pos =
     (case current_token tokens pos of
        None \<Rightarrow> Raise TypeError
      | Some token \<Rightarrow>
          if fst token = NUMBER then
            bind (eat tokens pos NUMBER None) (\<lambda>(_, pos1).
            case py_int (snd token) of
              None \<Rightarrow> Raise ValueError
            | Some v \<Rightarrow> Done (Number v, pos1))
          else if fst token = IDENTIFIER then
            bind (eat tokens pos IDENTIFIER None) (\<lambda>(_, pos1).
            Done (Variable (snd token), pos1))
          else if snd token = ''('' then
            bind (eat tokens pos SYMBOL (Some ''('')) (\<lambda>(_, pos1).
            bind (parse_expression n tokens pos1) (\<lambda>(e, pos2).
            bind (eat tokens pos2 SYMBOL (Some '')'')) (\<lambda>(_, pos3).
            Done (e, pos3))))
          else Raise (UnexpectedToken (snd token)))"
  by pat_completeness auto
termination
  by (relation "measure (case_sum
        (case_sum (case_sum fst fst) (case_sum fst fst))
        (case_sum (case_sum fst fst) (case_sum fst fst)))") auto

subsection \<open>Statements\<close>

definition parse_return :: "nat \<Rightarrow> token list \<Rightarrow> nat \<Rightarrow> (stmt \<times> nat) outcome" where
  "parse_return n tokens pos =
     bind (eat tokens pos KEYWORD (Some ''return'')) (\<lambda>(_, pos1).
     bind (parse_expression n tokens pos1) (\<lambda>(e, pos2).
     bind (eat tokens pos2 SYMBOL (Some '';'')) (\<lambda>(_, pos3).
     Done (Return e, pos3))))"

definition parse_declaration :: "token list \<Rightarrow> nat \<Rightarrow> (stmt \<times> nat) outcome" where
  "parse_declaration tokens pos =
     bind (eat tokens pos KEYWORD (Some ''int'')) (\<lambda>(_, pos1).
     bind (eat tokens pos1 IDENTIFIER None) (\<lambda>(var, pos2).
     bind (eat tokens pos2 SYMBOL (Some '';'')) (\<lambda>(_, pos3).
     Done (Declaration (snd var), pos3))))"

definition parse_assignment :: "nat \<Rightarrow> token list \<Rightarrow> nat \<Rightarrow> (stmt \<times> nat) outcome" where
  "parse_assignment n tokens pos =
     bind (eat tokens pos IDENTIFIER None) (\<lambda>(var, pos1).
     bind (eat tokens pos1 SYMBOL (Some ''='')) (\<lambda>(_, pos2).
     bind (parse_expression n tokens pos2) (\<lambda>(e, pos3).
     bind (eat tokens pos3 SYMBOL (Some '';'')) (\<lambda>(_, pos4).
     Done (Assignment (snd var) e, pos4)))))"

text \<open>
  \<open>parse_block\<close> is the loop
  \<open>while self.current_token() and self.current_token()[1] != '}': ....append(self.parse_statement())\<close>
  of \<open>parse_function\<close>, \<open>parse_if\<close> and \<open>parse_while\<close>, carrying the list built so far.

  In \<open>parse_statement\<close> the test \<open>self.tokens[self.pos + 1][1] == '='\<close> is evaluated when the
  current token is an identifier; it indexes the token list directly, so an index past the
  end raises \<open>IndexError\<close>. When the next token is not \<open>=\<close> the remaining tests (both for
  keywords) fail and the final \<open>else\<close> raises.
\<close>

function (sequential) parse_statement :: "nat \<Rightarrow> token list \<Rightarrow> nat \<Rightarrow> (stmt \<times> nat) outcome"
  and parse_if :: "nat \<Rightarrow> token list \<Rightarrow> nat \<Rightarrow> (stmt \<times> nat) outcome"
  and parse_while :: "nat \<Rightarrow> token list \<Rightarrow> nat \<Rightarrow> (stmt \<times> nat) outcome"
  and parse_block :: "nat \<Rightarrow> token list \<Rightarrow> nat \<Rightarrow> stmt list \<Rightarrow> (stmt list \<times> nat) outcome"
where
  "parse_statement 0 tokens pos = OutOfFuel"
| "parse_statement (Suc n) tokens pos =
     (case current_token tokens pos of
        None \<Rightarrow> Raise TypeError
      | Some token \<Rightarrow>
          if fst token = KEYWORD \<and> snd token = ''return'' then parse_return n tokens pos
          else if fst token = KEYWORD \<and> snd token = ''int'' then parse_declaration tokens pos
          else if fst token = IDENTIFIER then
            (if pos + 1 < length tokens then
               (if snd (tokens ! (pos + 1)) = ''='' then parse_assignment n tokens pos
                else Raise (UnknownStatement (snd token)))
             else Raise IndexError)
          else if fst token = KEYWORD \<and> snd token = ''if'' then parse_if n tokens pos
          else if fst token = KEYWORD \<and> snd token = ''while'' then parse_while n tokens pos
          else Raise (UnknownStatement (snd token)))"
| "parse_if 0 tokens pos = OutOfFuel"
| "parse_if (Suc n) tokens pos =
     bind (eat tokens pos KEYWORD (Some ''if'')) (\<lambda>(_, pos1).
     bind (eat tokens pos1 SYMBOL (Some ''('')) (\<lambda>(_, pos2).
     bind (parse_expression n tokens pos2) (\<lambda>(condition, pos3).
     bind (eat tokens pos3 SYMBOL (Some '')'')) (\<lambda>(_, pos4).
     bind (eat tokens pos4 SYMBOL (Some ''{'')) (\<lambda>(_, pos5).
     bind (parse_block n tokens pos5 []) (\<lambda>(then_block, pos6).
     bind (eat tokens pos6 SYMBOL (Some ''}'')) (\<lambda>(_, pos7).
     if (case current_token tokens pos7 of None \<Rightarrow> False | Some t \<Rightarrow> snd t = ''else'')
     then
       bind (eat tokens pos7 KEYWORD (Some ''else'')) (\<lambda>(_, pos8).
       bind (eat tokens pos8 SYMBOL (Some ''{'')) (\<lambda>(_, pos9).
       bind (parse_block n tokens pos9 []) (\<lambda>(else_block, pos10).
       bind (eat tokens pos10 SYMBOL (Some ''}'')) (\<lambda>(_, pos11).
       Done (If_stmt condition then_block else_block, pos11)))))
     else Done (If_stmt condition then_block [], pos7))))))))"
| "parse_while 0 tokens pos = OutOfFuel"
| "parse_while (Suc n) tokens pos =
     bind (eat tokens pos KEYWORD (Some ''while'')) (\<lambda>(_, pos1).
     bind (eat tokens pos1 SYMBOL (Some ''('')) (\<lambda>(_, pos2).
     bind (parse_expression n tokens pos2) (\<lambda>(condition, pos3).
     bind (eat tokens pos3 SYMBOL (Some '')'')) (\<lambda>(_, pos4).
     bind (eat tokens pos4 SYMBOL (Some ''{'')) (\<lambda>(_, pos5).
     bind (parse_block n tokens pos5 []) (\<lambda>(body, pos6).
     bind (eat tokens pos6 SYMBOL (Some ''}'')) (\<lambda>(_, pos7).
     Done (While_stmt condition body, pos7))))))))"
| "parse_block 0 tokens pos acc = OutOfFuel"
| "parse_block (Suc n) tokens pos acc =
     (case current_token tokens pos of
        None \<Rightarrow> Done (acc, pos)
      | Some token \<Rightarrow>
          if snd token \<noteq> ''}''
          then bind (parse_statement n tokens pos) (\<lambda>(s, pos1).
               parse_block n tokens pos1 (acc @ [s]))
          else Done (acc, pos))"
  by pat_completeness auto
termination
  by (relation "measure (case_sum (case_sum fst fst) (case_sum fst fst))") auto

subsection \<open>Functions and programs\<close>

definition parse_function :: "nat \<Rightarrow> token list \<Rightarrow> nat \<Rightarrow> (func \<times> nat) outcome" where
  "parse_function n tokens pos =
     bind (eat tokens pos KEYWORD (Some ''int'')) (\<lambda>(_, pos1).
     bind (eat tokens pos1 IDENTIFIER None) (\<lambda>(func_name, pos2).
     bind (eat tokens pos2 SYMBOL (Some ''('')) (\<lambda>(_, pos3).
     bind (eat tokens pos3 SYMBOL (Some '')'')) (\<lambda>(_, pos4).
     bind (eat tokens pos4 SYMBOL (Some ''{'')) (\<lambda>(_, pos5).
     bind (parse_block n tokens pos5 []) (\<lambda>(statements, pos6).
     bind (eat tokens pos6 SYMBOL (Some ''}'')) (\<lambda>(_, pos7).
     Done (Function (snd func_name) statements, pos7))))))))"

fun parse_program :: "nat \<Rightarrow> token list \<Rightarrow> nat \<Rightarrow> func list \<Rightarrow> (program \<times> nat) outcome" where
  "parse_program 0 tokens pos functions = OutOfFuel"
| "parse_program (Suc n) tokens pos functions =
     (case current_token tokens pos of
        None \<Rightarrow> Done (Program functions, pos)
      | Some token \<Rightarrow>
          if snd token = ''int''
          then bind (parse_function n tokens pos) (\<lambda>(f, pos1).
               parse_program n tokens pos1 (functions @ [f]))
          else Done (Program functions, pos))"

definition parse :: "nat \<Rightarrow> token list \<Rightarrow> program outcome" where
  "parse n tokens = bind (parse_program n tokens 0 []) (\<lambda>(p, _). Done p)"

text \<open>The pipeline of the driver: tokenize, parse, generate with a fresh generator.\<close>

definition compile :: "nat \<Rightarrow> string \<Rightarrow> string outcome" where
  "compile n source =
     (case tokenize source of
        Inl e \<Rightarrow> Raise e
      | Inr tokens \<Rightarrow> bind (parse n tokens) (\<lambda>p. Done (fst (generate CodeGenerator_init p))))"

subsection \<open>More fuel does not change an outcome\<close>

text \<open>
  \<open>stable r r'\<close>: the outcome \<open>r'\<close> of a run with more fuel agrees with the outcome \<open>r\<close>
  of a run with less fuel, unless the latter ran out of fuel.
\<close>

definition stable :: "'a outcome \<Rightarrow> 'a outcome \<Rightarrow> bool" where
  "stable r r' = (r = OutOfFuel \<or> r' = r)"

subsection \<open>Properties of tokens and of expressions used in the statements below\<close>

text \<open>
  \<open>token_ok\<close>: a symbol token carries a registered symbol, and no token carries the lexeme
  \<open><=\<close> or \<open>>=\<close>. \<open>operators\<close> lists the operators of the binary operations of an expression.
\<close>

definition token_ok :: "token \<Rightarrow> bool" where
  "token_ok t = ((fst t = SYMBOL \<longrightarrow> snd t \<in> set symbols) \<and> snd t \<noteq> ''<='' \<and> snd t \<noteq> ''>='')"

fun operators :: "expr \<Rightarrow> string list" where
  "operators (Number v) = []"
| "operators (Variable x) = []"
| "operators (BinaryOp op l r) = op # operators l @ operators r"

definition good :: "expr \<Rightarrow> bool" where
  "good e = (''<='' \<notin> set (operators e) \<and> ''>='' \<notin> set (operators e))"

text \<open>
  \<open>consumable c\<close>: some lexical rule can consume the character \<open>c\<close>: whitespace, a character
  of an identifier or a number, or a character of a registered symbol. \<open>no_rule src j\<close>: no
  branch of the loop of \<open>tokenize\<close> applies at position \<open>j\<close> of the source. \<open>lexed src pos res\<close>
  relates a cursor and a result of the loop started there: the loop consumed characters
  up to some position \<open>j\<close>, which is the end of the source for a list of tokens and the
  position of the reported character for an error.
\<close>

definition consumable :: "char \<Rightarrow> bool" where
  "consumable c = (isspace c \<or> isalnum c \<or> c = CHR ''_'' \<or> c \<in> set (map hd symbols))"

definition no_rule :: "string \<Rightarrow> nat \<Rightarrow> bool" where
  "no_rule src j = (\<not> isspace (src ! j) \<and> \<not> isalpha (src ! j) \<and> \<not> isdigit (src ! j)
                    \<and> list_all (\<lambda>smb. \<not> startswith src smb j) symbols)"

definition lexed :: "string \<Rightarrow> nat \<Rightarrow> error + token list \<Rightarrow> bool" where
  "lexed src pos res =
     (\<exists>j. pos \<le> j \<and> list_all (\<lambda>k. consumable (src ! k)) [pos..<j]
          \<and> (case res of
                Inr r \<Rightarrow> length src \<le> j
              | Inl e \<Rightarrow> j < length src \<and> e = UnknownChar (src ! j) \<and> no_rule src j))"

text \<open>
  For the statement of left associativity: \<open>primary_of t\<close> is the expression of a token
  that is a primary expression on its own (a number or an identifier, as the first two
  branches of \<open>parse_primary\<close> build it); \<open>infix_tokens t0 rest\<close> is the token sequence
  \<open>t0 op1 t1 op2 t2 ...\<close>; \<open>left_chain e0 rest\<close> is the left-leaning tree
  \<open>BinaryOp(op2, BinaryOp(op1, e0, e1), e2) ...\<close> over the same operators and operands.
\<close>

definition primary_of :: "token \<Rightarrow> expr option" where
  "primary_of t =
     (if fst t = NUMBER then map_option Number (py_int (snd t))
      else if fst t = IDENTIFIER then Some (Variable (snd t))
      else None)"

definition infix_tokens :: "token \<Rightarrow> (string \<times> token) list \<Rightarrow> token list" where
  "infix_tokens t0 rest = t0 # concat (map (\<lambda>(op, t). [(SYMBOL, op), t]) rest)"

definition left_chain :: "expr \<Rightarrow> (string \<times> token) list \<Rightarrow> expr" where
  "left_chain e0 rest = foldl (\<lambda>l (op, t). BinaryOp op l (the (primary_of t))) e0 rest"

text \<open>The position after an operand of a chain: the end of the tokens or an operator of the tier.\<close>

definition chain_next :: "string list \<Rightarrow> token list \<Rightarrow> nat \<Rightarrow> bool" where
  "chain_next ops tokens pos =
     (current_token tokens pos = None
      \<or> (\<exists>op. op \<in> set ops \<and> current_token tokens pos = Some (SYMBOL, op)))"

section \<open>Framing: generation only appends to the line buffer\<close>

lemma code_emit [simp]: "code (emit g l) = code g @ [l]"
  by (simp add: emit_def)

lemma label_counter_emit [simp]: "label_counter (emit g l) = label_counter g"
  by (simp add: emit_def)

lemma emit_prepend [simp]: "emit (prepend c g) l = prepend c (emit g l)"
  by (simp add: emit_def prepend_def)

lemma generate_label_prepend [simp]:
  "generate_label (prepend c g) = (fst (generate_label g), prepend c (snd (generate_label g)))"
  by (simp add: generate_label_def prepend_def Let_def)

lemma code_prepend [simp]: "code (prepend c g) = c @ code g"
  by (simp add: prepend_def)

lemma label_counter_prepend [simp]: "label_counter (prepend c g) = label_counter g"
  by (simp add: prepend_def)

lemma prepend_self: "prepend (code g) (g\<lparr>code := []\<rparr>) = g"
  by (simp add: prepend_def)

lemma generate_expression_prepend [simp]:
  "generate_expression (prepend c g) e = prepend c (generate_expression g e)"
  by (induction e arbitrary: g) (simp_all add: Let_def)

lemma label_counter_generate_expression [simp]:
  "label_counter (generate_expression g e) = label_counter g"
  by (induction e arbitrary: g) (simp_all add: Let_def)

lemma generate_statements_prepend_aux:
  "(\<And>s g. s \<in> set ss \<Longrightarrow> generate_statement (prepend c g) s = prepend c (generate_statement g s))
   \<Longrightarrow> generate_statements (prepend c g) ss = prepend c (generate_statements g ss)"
  by (induction ss arbitrary: g) simp_all

lemma generate_statement_prepend:
  "generate_statement (prepend c g) s = prepend c (generate_statement g s)"
proof (induction s arbitrary: g)
  case (If_stmt cnd t e)
  have t: "\<And>g. generate_statements (prepend c g) t = prepend c (generate_statements g t)"
    by (rule generate_statements_prepend_aux) (rule If_stmt.IH(1))
  have e: "\<And>g. generate_statements (prepend c g) e = prepend c (generate_statements g e)"
    by (rule generate_statements_prepend_aux) (rule If_stmt.IH(2))
  show ?case by (simp add: Let_def split_beta t e)
next
  case (While_stmt cnd b)
  have b: "\<And>g. generate_statements (prepend c g) b = prepend c (generate_statements g b)"
    by (rule generate_statements_prepend_aux) (rule While_stmt.IH)
  show ?case by (simp add: Let_def split_beta b)
qed (simp_all add: Let_def)

lemma generate_statements_prepend:
  "generate_statements (prepend c g) ss = prepend c (generate_statements g ss)"
  by (rule generate_statements_prepend_aux) (rule generate_statement_prepend)

lemma code_generate_expression:
  "code (generate_expression g e) = code g @ code (generate_expression (g\<lparr>code := []\<rparr>) e)"
proof -
  have "generate_expression (prepend (code g) (g\<lparr>code := []\<rparr>)) e
        = prepend (code g) (generate_expression (g\<lparr>code := []\<rparr>) e)"
    by (rule generate_expression_prepend)
  then show ?thesis by (simp add: prepend_self)
qed

lemma code_generate_statements:
  "code (generate_statements g ss) = code g @ code (generate_statements (g\<lparr>code := []\<rparr>) ss)"
proof -
  have "generate_statements (prepend (code g) (g\<lparr>code := []\<rparr>)) ss
        = prepend (code g) (generate_statements (g\<lparr>code := []\<rparr>) ss)"
    by (rule generate_statements_prepend)
  then show ?thesis by (simp add: prepend_self)
qed

lemma str_int_minus4: "str_int (- 4) = ''-4''"
  by (simp add: str_int_def str_nat.simps digit_char_def)

section \<open>Variable addressing\<close>

text \<open>
  C1. \<open>get_variable_offset\<close> returns \<open>-4\<close> for every variable name. Hence the load of any
  variable is the line \<open>mov -4(%ebp), %eax\<close> and the store of any assignment is the line
  \<open>mov %eax, -4(%ebp)\<close>, whatever the name: the store emitted for an assignment to one
  variable writes the very slot that holds every other variable. For the function
  \<open>int main() { int a; int b; a = 1; b = 2; return a; }\<close> the frame has two slots
  (\<open>sub $8, %esp\<close>), both assignments store to \<open>-4(%ebp)\<close>, and \<open>return a\<close> loads from there:
  the assignment to the second variable overwrites the storage of the first.
\<close>

theorem single_slot_addressing:
  "get_variable_offset x = - 4
   \<and> code (generate_expression g (Variable x)) = code g @ [''mov -4(%ebp), %eax'']
   \<and> code (generate_statement g (Assignment x e))
       = code (generate_expression g e) @ [''mov %eax, -4(%ebp)'']
   \<and> last (code (generate_statement g (Assignment x e)))
       = last (code (generate_statement g' (Assignment y e')))
   \<and> code (generate_function CodeGenerator_init
           (Function ''main'' [Declaration ''a'', Declaration ''b'',
              Assignment ''a'' (Number 1), Assignment ''b'' (Number 2),
              Return (Variable ''a'')]))
       = [''_start:'', ''push %ebp'', ''mov %esp, %ebp'', ''sub $8, %esp'',
          ''mov $1, %eax'', ''mov %eax, -4(%ebp)'',
          ''mov $2, %eax'', ''mov %eax, -4(%ebp)'',
          ''mov -4(%ebp), %eax'', ''mov %eax, %ebx'', ''mov $1, %eax'', ''int $0x80'',
          ''mov %ebp, %esp'', ''pop %ebp'', ''ret'', []]"
proof -
  have two: "code (generate_function CodeGenerator_init
           (Function ''main'' [Declaration ''a'', Declaration ''b'',
              Assignment ''a'' (Number 1), Assignment ''b'' (Number 2),
              Return (Variable ''a'')]))
       = [''_start:'', ''push %ebp'', ''mov %esp, %ebp'', ''sub $8, %esp'',
          ''mov $1, %eax'', ''mov %eax, -4(%ebp)'',
          ''mov $2, %eax'', ''mov %eax, -4(%ebp)'',
          ''mov -4(%ebp), %eax'', ''mov %eax, %ebx'', ''mov $1, %eax'', ''int $0x80'',
          ''mov %ebp, %esp'', ''pop %ebp'', ''ret'', []]"
    by code_simp
  have gen: "get_variable_offset x = - 4
   \<and> code (generate_expression g (Variable x)) = code g @ [''mov -4(%ebp), %eax'']
   \<and> code (generate_statement g (Assignment x e))
       = code (generate_expression g e) @ [''mov %eax, -4(%ebp)'']
   \<and> last (code (generate_statement g (Assignment x e)))
       = last (code (generate_statement g' (Assignment y e')))"
    by (simp add: get_variable_offset_def str_int_minus4)
  from gen two show ?thesis by (elim conjE) (intro conjI; assumption)
qed

section \<open>Return statements\<close>

text \<open>
  C8. The code of \<open>Return e\<close> is the code of the expression \<open>e\<close> followed by exactly the
  three lines \<open>mov %eax, %ebx\<close>, \<open>mov $1, %eax\<close>, \<open>int $0x80\<close>, in this order: the exit
  system call with the value of the expression as status. The expression code is appended
  to the lines already in the buffer, and no label is generated.
\<close>

theorem return_is_exit_syscall:
  "code (generate_statement g (Return e))
     = code (generate_expression g e) @ [''mov %eax, %ebx'', ''mov $1, %eax'', ''int $0x80'']
   \<and> code (generate_expression g e) = code g @ code (generate_expression (g\<lparr>code := []\<rparr>) e)
   \<and> label_counter (generate_statement g (Return e)) = label_counter g"
  using code_generate_expression [of g e] by (simp add: Let_def)

section \<open>Decimal rendering is injective\<close>










lemma generate_label_eq:
  "generate_label g = (''L'' @ str_int (label_counter g + 1), g\<lparr>label_counter := label_counter g + 1\<rparr>)"
  by (simp add: generate_label_def Let_def)



section \<open>Labels\<close>

lemma label_counter_generate_label [simp]:
  "label_counter (snd (generate_label g)) = label_counter g + 1"
  by (simp add: generate_label_eq)










section \<open>Function prologue\<close>





section \<open>Fuel\<close>

lemma stable_refl [simp]: "stable r r"
  by (simp add: stable_def)

lemma stable_OutOfFuel [simp]: "stable OutOfFuel r"
  by (simp add: stable_def)

lemma stable_trans: "stable a b \<Longrightarrow> stable b c \<Longrightarrow> stable a c"
  by (auto simp: stable_def)

lemma bind_mono:
  "stable m m' \<Longrightarrow> (\<And>x. stable (f x) (f' x)) \<Longrightarrow> stable (bind m f) (bind m' f')"
  by (auto simp: stable_def bind_def split: outcome.splits)

lemma bind_mono_right: "(\<And>x. stable (f x) (f' x)) \<Longrightarrow> stable (bind m f) (bind m f')"
  by (rule bind_mono) simp_all

lemma stable_case_prod:
  "(\<And>a b. stable (f a b) (f' a b)) \<Longrightarrow> stable (case_prod f x) (case_prod f' x)"
  by (cases x) simp

lemmas stable_intros = bind_mono bind_mono_right stable_case_prod

lemma stable_le:
  assumes step: "\<And>k. stable (f k) (f (Suc k))" and le: "n \<le> m"
  shows "stable (f n) (f m)"
  using le
proof (induction m)
  case 0
  then show ?case by simp
next
  case (Suc m)
  show ?case
  proof (cases "n = Suc m")
    case True
    then show ?thesis by simp
  next
    case False
    with Suc have "stable (f n) (f m)" by simp
    then show ?thesis using step [of m] by (rule stable_trans)
  qed
qed

declare parse_expression.simps [simp del] parse_comparison.simps [simp del]
  comparison_loop.simps [simp del] parse_addition.simps [simp del] addition_loop.simps [simp del]
  parse_multiplication.simps [simp del] multiplication_loop.simps [simp del]
  parse_primary.simps [simp del]

lemma expression_stable_Suc:
  "(\<forall>pos. stable (parse_expression n tokens pos) (parse_expression (Suc n) tokens pos))
   \<and> (\<forall>pos. stable (parse_comparison n tokens pos) (parse_comparison (Suc n) tokens pos))
   \<and> (\<forall>pos left. stable (comparison_loop n tokens pos left) (comparison_loop (Suc n) tokens pos left))
   \<and> (\<forall>pos. stable (parse_addition n tokens pos) (parse_addition (Suc n) tokens pos))
   \<and> (\<forall>pos left. stable (addition_loop n tokens pos left) (addition_loop (Suc n) tokens pos left))
   \<and> (\<forall>pos. stable (parse_multiplication n tokens pos) (parse_multiplication (Suc n) tokens pos))
   \<and> (\<forall>pos left. stable (multiplication_loop n tokens pos left)
          (multiplication_loop (Suc n) tokens pos left))
   \<and> (\<forall>pos. stable (parse_primary n tokens pos) (parse_primary (Suc n) tokens pos))"
proof (induction n)
  case 0
  show ?case
    by (simp add: parse_expression.simps parse_comparison.simps comparison_loop.simps
        parse_addition.simps addition_loop.simps parse_multiplication.simps
        multiplication_loop.simps parse_primary.simps)
next
  case (Suc n)
  then have e: "\<And>pos. stable (parse_expression n tokens pos) (parse_expression (Suc n) tokens pos)"
    and c: "\<And>pos. stable (parse_comparison n tokens pos) (parse_comparison (Suc n) tokens pos)"
    and cl: "\<And>pos left. stable (comparison_loop n tokens pos left)
               (comparison_loop (Suc n) tokens pos left)"
    and a: "\<And>pos. stable (parse_addition n tokens pos) (parse_addition (Suc n) tokens pos)"
    and al: "\<And>pos left. stable (addition_loop n tokens pos left)
               (addition_loop (Suc n) tokens pos left)"
    and m: "\<And>pos. stable (parse_multiplication n tokens pos)
               (parse_multiplication (Suc n) tokens pos)"
    and ml: "\<And>pos left. stable (multiplication_loop n tokens pos left)
               (multiplication_loop (Suc n) tokens pos left)"
    and p: "\<And>pos. stable (parse_primary n tokens pos) (parse_primary (Suc n) tokens pos)"
    by blast+
  have 1: "stable (parse_expression (Suc n) tokens pos)
             (parse_expression (Suc (Suc n)) tokens pos)" for pos
    apply (simp only: parse_expression.simps(2) [of n])
    apply (subst parse_expression.simps(2) [of "Suc n"])
    apply (auto split: option.splits intro!: stable_intros c)
    done
  have 2: "stable (parse_comparison (Suc n) tokens pos)
             (parse_comparison (Suc (Suc n)) tokens pos)" for pos
    apply (simp only: parse_comparison.simps(2) [of n])
    apply (subst parse_comparison.simps(2) [of "Suc n"])
    apply (auto split: option.splits intro!: stable_intros a cl)
    done
  have 3: "stable (comparison_loop (Suc n) tokens pos left)
             (comparison_loop (Suc (Suc n)) tokens pos left)" for pos left
    apply (simp only: comparison_loop.simps(2) [of n])
    apply (subst comparison_loop.simps(2) [of "Suc n"])
    apply (auto split: option.splits intro!: stable_intros a cl)
    done
  have 4: "stable (parse_addition (Suc n) tokens pos)
             (parse_addition (Suc (Suc n)) tokens pos)" for pos
    apply (simp only: parse_addition.simps(2) [of n])
    apply (subst parse_addition.simps(2) [of "Suc n"])
    apply (auto split: option.splits intro!: stable_intros m al)
    done
  have 5: "stable (addition_loop (Suc n) tokens pos left)
             (addition_loop (Suc (Suc n)) tokens pos left)" for pos left
    apply (simp only: addition_loop.simps(2) [of n])
    apply (subst addition_loop.simps(2) [of "Suc n"])
    apply (auto split: option.splits intro!: stable_intros m al)
    done
  have 6: "stable (parse_multiplication (Suc n) tokens pos)
             (parse_multiplication (Suc (Suc n)) tokens pos)" for pos
    apply (simp only: parse_multiplication.simps(2) [of n])
    apply (subst parse_multiplication.simps(2) [of "Suc n"])
    apply (auto split: option.splits intro!: stable_intros p ml)
    done
  have 7: "stable (multiplication_loop (Suc n) tokens pos left)
             (multiplication_loop (Suc (Suc n)) tokens pos left)" for pos left
    apply (simp only: multiplication_loop.simps(2) [of n])
    apply (subst multiplication_loop.simps(2) [of "Suc n"])
    apply (auto split: option.splits intro!: stable_intros p ml)
    done
  have 8: "stable (parse_primary (Suc n) tokens pos)
             (parse_primary (Suc (Suc n)) tokens pos)" for pos
    apply (simp only: parse_primary.simps(2) [of n])
    apply (subst parse_primary.simps(2) [of "Suc n"])
    apply (auto split: option.splits intro!: stable_intros e)
    done
  show ?case using 1 2 3 4 5 6 7 8 by blast
qed

lemma parse_expression_stable_Suc:
  "stable (parse_expression n tokens pos) (parse_expression (Suc n) tokens pos)"
  using expression_stable_Suc [of n tokens] by blast

lemma parse_expression_more_fuel:
  "parse_expression n tokens pos = Done r \<Longrightarrow> n \<le> m \<Longrightarrow> parse_expression m tokens pos = Done r"
  using stable_le [of "\<lambda>k. parse_expression k tokens pos" n m, OF parse_expression_stable_Suc]
  by (simp add: stable_def)

lemma parse_return_stable_Suc:
  "stable (parse_return n tokens pos) (parse_return (Suc n) tokens pos)"
  unfolding parse_return_def
  by (auto intro!: stable_intros parse_expression_stable_Suc)

lemma parse_assignment_stable_Suc:
  "stable (parse_assignment n tokens pos) (parse_assignment (Suc n) tokens pos)"
  unfolding parse_assignment_def
  by (auto intro!: stable_intros parse_expression_stable_Suc)

declare parse_statement.simps [simp del] parse_if.simps [simp del] parse_while.simps [simp del]
  parse_block.simps [simp del]

lemma statement_stable_Suc:
  "(\<forall>pos. stable (parse_statement n tokens pos) (parse_statement (Suc n) tokens pos))
   \<and> (\<forall>pos. stable (parse_if n tokens pos) (parse_if (Suc n) tokens pos))
   \<and> (\<forall>pos. stable (parse_while n tokens pos) (parse_while (Suc n) tokens pos))
   \<and> (\<forall>pos acc. stable (parse_block n tokens pos acc) (parse_block (Suc n) tokens pos acc))"
proof (induction n)
  case 0
  show ?case
    by (simp add: parse_statement.simps parse_if.simps parse_while.simps parse_block.simps)
next
  case (Suc n)
  then have s: "\<And>pos. stable (parse_statement n tokens pos) (parse_statement (Suc n) tokens pos)"
    and i: "\<And>pos. stable (parse_if n tokens pos) (parse_if (Suc n) tokens pos)"
    and w: "\<And>pos. stable (parse_while n tokens pos) (parse_while (Suc n) tokens pos)"
    and b: "\<And>pos acc. stable (parse_block n tokens pos acc) (parse_block (Suc n) tokens pos acc)"
    by blast+
  note e = parse_expression_stable_Suc
  have 1: "stable (parse_statement (Suc n) tokens pos) (parse_statement (Suc (Suc n)) tokens pos)"
    for pos
    apply (simp only: parse_statement.simps(2) [of n])
    apply (subst parse_statement.simps(2) [of "Suc n"])
    apply (auto split: option.splits
        intro!: stable_intros parse_return_stable_Suc parse_assignment_stable_Suc i w)
    done
  have 2: "stable (parse_if (Suc n) tokens pos) (parse_if (Suc (Suc n)) tokens pos)" for pos
    apply (simp only: parse_if.simps(2) [of n])
    apply (subst parse_if.simps(2) [of "Suc n"])
    apply (auto split: option.splits intro!: stable_intros e b)
    done
  have 3: "stable (parse_while (Suc n) tokens pos) (parse_while (Suc (Suc n)) tokens pos)" for pos
    apply (simp only: parse_while.simps(2) [of n])
    apply (subst parse_while.simps(2) [of "Suc n"])
    apply (auto split: option.splits intro!: stable_intros e b)
    done
  have 4: "stable (parse_block (Suc n) tokens pos acc) (parse_block (Suc (Suc n)) tokens pos acc)"
    for pos acc
    apply (simp only: parse_block.simps(2) [of n])
    apply (subst parse_block.simps(2) [of "Suc n"])
    apply (auto split: option.splits intro!: stable_intros s b)
    done
  show ?case using 1 2 3 4 by blast
qed

lemma parse_statement_stable_Suc:
  "stable (parse_statement n tokens pos) (parse_statement (Suc n) tokens pos)"
  using statement_stable_Suc [of n tokens] by blast

lemma parse_block_stable_Suc:
  "stable (parse_block n tokens pos acc) (parse_block (Suc n) tokens pos acc)"
  using statement_stable_Suc [of n tokens] by blast

lemma parse_function_stable_Suc:
  "stable (parse_function n tokens pos) (parse_function (Suc n) tokens pos)"
  unfolding parse_function_def
  by (auto intro!: stable_intros parse_block_stable_Suc)

declare parse_program.simps [simp del]

lemma parse_program_stable_Suc:
  "stable (parse_program n tokens pos fs) (parse_program (Suc n) tokens pos fs)"
proof (induction n arbitrary: pos fs)
  case 0
  show ?case by (simp add: parse_program.simps)
next
  case (Suc n)
  show ?case
    apply (simp only: parse_program.simps(2) [of n])
    apply (subst parse_program.simps(2) [of "Suc n"])
    apply (auto split: option.splits intro!: stable_intros parse_function_stable_Suc Suc.IH)
    done
qed

lemma parse_stable_Suc: "stable (parse n tokens) (parse (Suc n) tokens)"
  unfolding parse_def
  by (auto intro!: stable_intros parse_program_stable_Suc)

lemma parse_more_fuel:
  "parse n tokens = r \<Longrightarrow> r \<noteq> OutOfFuel \<Longrightarrow> n \<le> m \<Longrightarrow> parse m tokens = r"
  using stable_le [of "\<lambda>k. parse k tokens" n m, OF parse_stable_Suc]
  by (auto simp: stable_def)

lemma parse_statement_more_fuel:
  "parse_statement n tokens pos = r \<Longrightarrow> r \<noteq> OutOfFuel \<Longrightarrow> n \<le> m
   \<Longrightarrow> parse_statement m tokens pos = r"
  using stable_le [of "\<lambda>k. parse_statement k tokens pos" n m, OF parse_statement_stable_Suc]
  by (auto simp: stable_def)

lemma compile_stable_Suc: "stable (compile n source) (compile (Suc n) source)"
  unfolding compile_def
  by (auto split: sum.splits intro!: stable_intros parse_stable_Suc)

lemma compile_more_fuel:
  "compile n source = r \<Longrightarrow> r \<noteq> OutOfFuel \<Longrightarrow> n \<le> m \<Longrightarrow> compile m source = r"
  using stable_le [of "\<lambda>k. compile k source" n m, OF compile_stable_Suc]
  by (auto simp: stable_def)

section \<open>Operator precedence\<close>

text \<open>
  C7. The source \<open>1+2*3\<close> tokenizes to five tokens, and \<open>parse_expression\<close> on them returns
  \<open>BinaryOp(+, Number 1, BinaryOp(*, Number 2, Number 3))\<close> with all five tokens consumed,
  for every amount of fuel from 20 up: multiplication binds tighter than addition. The
  same tree is the expression of the return statement parsed from
  \<open>int main() { return 1+2*3; }\<close>.
\<close>

theorem precedence_mul_over_add:
  "tokenize ''1+2*3''
     = Inr [(NUMBER, ''1''), (SYMBOL, ''+''), (NUMBER, ''2''), (SYMBOL, ''*''), (NUMBER, ''3'')]
   \<and> parse_expression (20 + n)
         [(NUMBER, ''1''), (SYMBOL, ''+''), (NUMBER, ''2''), (SYMBOL, ''*''), (NUMBER, ''3'')] 0
       = Done (BinaryOp ''+'' (Number 1) (BinaryOp ''*'' (Number 2) (Number 3)), 5)
   \<and> (case tokenize ''int main() { return 1+2*3; }'' of
         Inl e \<Rightarrow> Raise e
       | Inr tokens \<Rightarrow> parse (20 + n) tokens)
       = Done (Program [Function ''main''
           [Return (BinaryOp ''+'' (Number 1) (BinaryOp ''*'' (Number 2) (Number 3)))]])"
proof -
  let ?toks = "[(NUMBER, ''1''), (SYMBOL, ''+''), (NUMBER, ''2''), (SYMBOL, ''*''), (NUMBER, ''3'')]"
  let ?e = "BinaryOp ''+'' (Number 1) (BinaryOp ''*'' (Number 2) (Number 3))"
  have t: "tokenize ''1+2*3'' = Inr ?toks"
    by code_simp
  have "parse_expression 20 ?toks 0 = Done (?e, 5)"
    by code_simp
  then have e: "parse_expression (20 + n) ?toks 0 = Done (?e, 5)"
    by (rule parse_expression_more_fuel) simp
  have t2: "tokenize ''int main() { return 1+2*3; }''
            = Inr [(KEYWORD, ''int''), (IDENTIFIER, ''main''), (SYMBOL, ''(''), (SYMBOL, '')''),
                   (SYMBOL, ''{''), (KEYWORD, ''return''), (NUMBER, ''1''), (SYMBOL, ''+''),
                   (NUMBER, ''2''), (SYMBOL, ''*''), (NUMBER, ''3''), (SYMBOL, '';''),
                   (SYMBOL, ''}'')]"
    by code_simp
  have "parse 20 [(KEYWORD, ''int''), (IDENTIFIER, ''main''), (SYMBOL, ''(''), (SYMBOL, '')''),
                   (SYMBOL, ''{''), (KEYWORD, ''return''), (NUMBER, ''1''), (SYMBOL, ''+''),
                   (NUMBER, ''2''), (SYMBOL, ''*''), (NUMBER, ''3''), (SYMBOL, '';''),
                   (SYMBOL, ''}'')]
        = Done (Program [Function ''main'' [Return ?e]])"
    by code_simp
  then have p: "parse (20 + n) [(KEYWORD, ''int''), (IDENTIFIER, ''main''), (SYMBOL, ''(''),
                   (SYMBOL, '')''), (SYMBOL, ''{''), (KEYWORD, ''return''), (NUMBER, ''1''),
                   (SYMBOL, ''+''), (NUMBER, ''2''), (SYMBOL, ''*''), (NUMBER, ''3''),
                   (SYMBOL, '';''), (SYMBOL, ''}'')]
        = Done (Program [Function ''main'' [Return ?e]])"
    by (rule parse_more_fuel) simp_all
  show ?thesis
    by (simp only: t e t2 p sum.case simp_thms)
qed

section \<open>The unchecked lookahead of the statement dispatcher\<close>

text \<open>
  C10. When the token at statement position is an identifier and it is the last token,
  \<open>parse_statement\<close> raises \<open>IndexError\<close> (the read of \<open>tokens[pos + 1]\<close>), for every
  positive amount of fuel; this is none of the parser's own errors. The statement loop
  of a block passes the exception on (the loop enters the statement as long as the lexeme
  is not the closing brace).
\<close>

theorem identifier_at_end_raises_index_error:
  assumes "pos + 1 = length tokens" and "fst (tokens ! pos) = IDENTIFIER"
  shows "parse_statement (Suc n) tokens pos = Raise IndexError
         \<and> (snd (tokens ! pos) \<noteq> ''}''
              \<longrightarrow> parse_block (Suc (Suc n)) tokens pos acc = Raise IndexError)"
proof -
  from assms have cur: "current_token tokens pos = Some (tokens ! pos)"
    by (simp add: current_token_def)
  have s: "parse_statement (Suc n) tokens pos = Raise IndexError"
    using assms by (simp add: parse_statement.simps cur)
  have "snd (tokens ! pos) \<noteq> ''}''
        \<Longrightarrow> parse_block (Suc (Suc n)) tokens pos acc = Raise IndexError"
    by (simp add: parse_block.simps cur s bind_def)
  with s show ?thesis by blast
qed

theorem identifier_at_end_raises_index_error_witness:
  "5 + 1 = length [(KEYWORD, ''int''), (IDENTIFIER, ''main''), (SYMBOL, ''(''), (SYMBOL, '')''),
      (SYMBOL, ''{''), (IDENTIFIER, ''a'')]
   \<and> fst ([(KEYWORD, ''int''), (IDENTIFIER, ''main''), (SYMBOL, ''(''), (SYMBOL, '')''),
      (SYMBOL, ''{''), (IDENTIFIER, ''a'')] ! 5) = IDENTIFIER
   \<and> parse_statement (Suc 0)
     [(KEYWORD, ''int''), (IDENTIFIER, ''main''), (SYMBOL, ''(''), (SYMBOL, '')''),
      (SYMBOL, ''{''), (IDENTIFIER, ''a'')] 5 = Raise IndexError
   \<and> parse_block (Suc (Suc 0))
     [(KEYWORD, ''int''), (IDENTIFIER, ''main''), (SYMBOL, ''(''), (SYMBOL, '')''),
      (SYMBOL, ''{''), (IDENTIFIER, ''a'')] 5 [] = Raise IndexError"
  using identifier_at_end_raises_index_error
    [of 5 "[(KEYWORD, ''int''), (IDENTIFIER, ''main''), (SYMBOL, ''(''), (SYMBOL, '')''),
            (SYMBOL, ''{''), (IDENTIFIER, ''a'')]" 0 "[]"]
  by simp

section \<open>A function body cut off by the end of the input\<close>

text \<open>
  When the statement loop of a function body runs into the end of the tokens, the
  \<open>eat\<close> for the closing brace raises the error for an unexpected end of the input.
\<close>

lemma parse_function_body_at_end:
  assumes "eat tokens pos KEYWORD (Some ''int'') = Done (t1, pos1)"
    and "eat tokens pos1 IDENTIFIER None = Done (t2, pos2)"
    and "eat tokens pos2 SYMBOL (Some ''('') = Done (t3, pos3)"
    and "eat tokens pos3 SYMBOL (Some '')'') = Done (t4, pos4)"
    and "eat tokens pos4 SYMBOL (Some ''{'') = Done (t5, pos5)"
    and "parse_block n tokens pos5 [] = Done (statements, length tokens)"
  shows "parse_function n tokens pos = Raise UnexpectedEOF"
  using assms
  by (simp add: parse_function_def bind_def eat_def [of tokens "length tokens"] current_token_def)

text \<open>
  C3. The source \<open>int main() { a\<close> has no closing brace. It tokenizes to six tokens and
  parsing them raises \<open>IndexError\<close>, not the error for an unexpected end of the input,
  for every amount of fuel from 20 up. Likewise \<open>int main() { return\<close> raises \<open>TypeError\<close>.
  A body cut off after a complete statement, as in \<open>int main() { return 1;\<close>, does raise
  the error for an unexpected end of the input.
\<close>

theorem missing_brace_outcomes:
  "tokenize ''int main() { a''
     = Inr [(KEYWORD, ''int''), (IDENTIFIER, ''main''), (SYMBOL, ''(''), (SYMBOL, '')''),
            (SYMBOL, ''{''), (IDENTIFIER, ''a'')]
   \<and> parse (20 + n) [(KEYWORD, ''int''), (IDENTIFIER, ''main''), (SYMBOL, ''(''), (SYMBOL, '')''),
            (SYMBOL, ''{''), (IDENTIFIER, ''a'')] = Raise IndexError
   \<and> compile (20 + n) ''int main() { a'' = Raise IndexError
   \<and> compile (20 + n) ''int main() { return'' = Raise TypeError
   \<and> compile (20 + n) ''int main() { return 1;'' = Raise UnexpectedEOF"
proof -
  let ?toks = "[(KEYWORD, ''int''), (IDENTIFIER, ''main''), (SYMBOL, ''(''), (SYMBOL, '')''),
            (SYMBOL, ''{''), (IDENTIFIER, ''a'')]"
  have t: "tokenize ''int main() { a'' = Inr ?toks"
    by code_simp
  have "parse 20 ?toks = Raise IndexError"
    by code_simp
  then have p: "parse (20 + n) ?toks = Raise IndexError"
    by (rule parse_more_fuel) simp_all
  have "compile 20 ''int main() { a'' = Raise IndexError"
    by code_simp
  then have c1: "compile (20 + n) ''int main() { a'' = Raise IndexError"
    by (rule compile_more_fuel) simp_all
  have "compile 20 ''int main() { return'' = Raise TypeError"
    by code_simp
  then have c2: "compile (20 + n) ''int main() { return'' = Raise TypeError"
    by (rule compile_more_fuel) simp_all
  have "compile 20 ''int main() { return 1;'' = Raise UnexpectedEOF"
    by code_simp
  then have c3: "compile (20 + n) ''int main() { return 1;'' = Raise UnexpectedEOF"
    by (rule compile_more_fuel) simp_all
  show ?thesis
    by (simp only: t p c1 c2 c3 simp_thms)
qed

section \<open>Tokens produced by the lexer\<close>

lemma scan_while_ge: "pos \<le> scan_while p src pos"
  by (induction p src pos rule: scan_while.induct) (subst scan_while.simps, auto)

lemma scan_while_le: "pos \<le> length src \<Longrightarrow> scan_while p src pos \<le> length src"
  by (induction p src pos rule: scan_while.induct) (subst scan_while.simps, auto)

lemma scan_while_all: "pos \<le> k \<Longrightarrow> k < scan_while p src pos \<Longrightarrow> p (src ! k)"
proof (induction p src pos rule: scan_while.induct)
  case (1 p src pos)
  show ?case
  proof (cases "pos < length src \<and> p (src ! pos)")
    case True
    show ?thesis
    proof (cases "k = pos")
      case True
      with \<open>pos < length src \<and> p (src ! pos)\<close> show ?thesis by simp
    next
      case False
      with "1.prems" True have "pos + 1 \<le> k" "k < scan_while p src (pos + 1)"
        by (simp_all add: scan_while.simps [of p src pos])
      with True show ?thesis by (intro "1.IH") simp_all
    qed
  next
    case False
    with "1.prems" show ?thesis by (simp add: scan_while.simps [of p src pos])
  qed
qed

lemma slice_Cons:
  "pos < length src \<Longrightarrow> pos < pos' \<Longrightarrow> slice src pos pos' = src ! pos # slice src (Suc pos) pos'"
proof -
  assume a: "pos < length src" "pos < pos'"
  then obtain d where d: "pos' - pos = Suc d" by (cases "pos' - pos") auto
  then have d': "pos' - Suc pos = d" by simp
  from a have "drop pos src = src ! pos # drop (Suc pos) src"
    by (simp add: Cons_nth_drop_Suc)
  then show ?thesis by (simp add: slice_def d d')
qed

lemma set_sorted_symbols: "set sorted_symbols = set symbols"
  by (auto simp: sorted_symbols_def symbols_def)

lemma token_ok_keyword: "v \<in> set lexer_keywords \<Longrightarrow> token_ok (KEYWORD, v)"
  by (auto simp: token_ok_def lexer_keywords_def)

lemma not_alpha_lt_gt: "\<not> isalpha CHR ''<''" "\<not> isalpha CHR ''>''" "\<not> isdigit CHR ''<''" "\<not> isdigit CHR ''>''"
  by (simp_all add: isalpha_def isdigit_def)

lemma token_ok_identifier:
  "pos < length src \<Longrightarrow> isalpha (src ! pos) \<Longrightarrow> pos < pos' \<Longrightarrow> token_ok (IDENTIFIER, slice src pos pos')"
  using not_alpha_lt_gt by (auto simp: token_ok_def slice_Cons)

lemma token_ok_number:
  "pos < length src \<Longrightarrow> isdigit (src ! pos) \<Longrightarrow> pos < pos' \<Longrightarrow> token_ok (NUMBER, slice src pos pos')"
  using not_alpha_lt_gt by (auto simp: token_ok_def slice_Cons)

lemma token_ok_symbol: "s \<in> set sorted_symbols \<Longrightarrow> token_ok (SYMBOL, s)"
  unfolding set_sorted_symbols by (auto simp: token_ok_def symbols_def)

lemma tokenize_loop_token_ok:
  "tokenize_loop src pos tokens = Inr r \<Longrightarrow> \<forall>t\<in>set tokens. token_ok t \<Longrightarrow> \<forall>t\<in>set r. token_ok t"
proof (induction src pos tokens rule: tokenize_loop.induct)
  case (1 src pos tokens)
  note eq = "1.prems"(1) [unfolded tokenize_loop.simps [of src pos tokens]]
  show ?case
  proof (cases "pos < length src")
    case False
    with eq "1.prems"(2) show ?thesis by simp
  next
    case len: True
    show ?thesis
    proof (cases "isspace (src ! pos)")
      case True
      with len eq "1.prems"(2) show ?thesis by (intro "1.IH"(1)) simp_all
    next
      case nsp: False
      show ?thesis
      proof (cases "isalpha (src ! pos)")
        case alpha: True
        let ?p = "scan_while (\<lambda>c. isalnum c \<or> c = CHR ''_'') src pos"
        have gt: "pos < ?p"
          using len alpha by (intro scan_while_greater) (simp_all add: isalpha_isalnum)
        show ?thesis
        proof (cases "slice src pos ?p \<in> set lexer_keywords")
          case True
          with len nsp alpha eq "1.prems"(2) show ?thesis
            by (intro "1.IH"(2) [OF len nsp alpha refl refl refl True])
               (simp_all add: Let_def token_ok_keyword)
        next
          case False
          with len nsp alpha eq "1.prems"(2) gt show ?thesis
            by (intro "1.IH"(3) [OF len nsp alpha refl refl refl False])
               (simp_all add: Let_def token_ok_identifier)
        qed
      next
        case nalpha: False
        show ?thesis
        proof (cases "isdigit (src ! pos)")
          case digit: True
          have gt: "pos < scan_while isdigit src pos"
            using len digit by (intro scan_while_greater)
          with len nsp nalpha digit eq "1.prems"(2) show ?thesis
            by (intro "1.IH"(4) [OF len nsp nalpha digit refl refl])
               (simp_all add: Let_def token_ok_number)
        next
          case ndigit: False
          show ?thesis
          proof (cases "find (\<lambda>smb. startswith src smb pos) sorted_symbols")
            case None
            with len nsp nalpha ndigit eq show ?thesis by simp
          next
            case (Some s)
            then have "s \<in> set sorted_symbols" by (auto simp: find_Some_iff)
            with Some len nsp nalpha ndigit eq "1.prems"(2) show ?thesis
              by (intro "1.IH"(5) [OF len nsp nalpha ndigit Some])
                 (simp_all add: token_ok_symbol)
          qed
        qed
      qed
    qed
  qed
qed


lemma bind_Done: "(bind m f = Done r) = (\<exists>x. m = Done x \<and> f x = Done r)"
  by (cases m) (simp_all add: bind_def)

lemma eat_Done:
  "eat tokens pos k v = Done (t, p) \<Longrightarrow> t = tokens ! pos \<and> pos < length tokens \<and> p = pos + 1"
  by (auto simp: eat_def current_token_def split: if_splits)

lemma good_BinaryOp:
  "good l \<Longrightarrow> good r \<Longrightarrow> op \<noteq> ''<='' \<Longrightarrow> op \<noteq> ''>='' \<Longrightarrow> good (BinaryOp op l r)"
  by (simp add: good_def)

text \<open>
  The symbol branch takes the longest registered symbol that starts at the cursor, and at most
  one symbol of a given length starts there: the result does not depend on the order in
  which symbols of equal length are tried.
\<close>

lemma startswith_unique:
  "startswith src a pos \<Longrightarrow> startswith src b pos \<Longrightarrow> length a = length b \<Longrightarrow> a = b"
  by (simp add: startswith_def)

lemma sorted_symbols_eq:
  "sorted_symbols = [''=='', ''!='', ''='', '';'', ''('', '')'', ''{'', ''}'', ''+'', ''-'', ''*'',
                     ''/'', ''<'', ''>'']"
  by (simp add: sorted_symbols_def symbols_def)

lemma find_sorted_symbols_longest:
  assumes "find (\<lambda>smb. startswith src smb pos) sorted_symbols = Some s"
    and "s' \<in> set symbols" and "startswith src s' pos"
  shows "length s' \<le> length s"
proof (cases "length s' = 2")
  case True
  with assms(2) have "s' = ''=='' \<or> s' = ''!=''" by (auto simp: symbols_def)
  with assms(1,3) have "s = ''=='' \<or> s = ''!=''"
    by (auto simp: sorted_symbols_eq split: if_splits)
  with True show ?thesis by auto
next
  case False
  with assms(2) have "length s' = 1" by (auto simp: symbols_def)
  moreover from assms(1) have "s \<in> set sorted_symbols" by (auto simp: find_Some_iff)
  then have "0 < length s" by (rule sorted_symbols_nonempty)
  ultimately show ?thesis by (cases s) simp_all
qed

section \<open>Operators of parsed expressions\<close>

lemma comparison_loop_Done:
  assumes "comparison_loop (Suc n) tokens pos left = Done (e, q)"
  shows "(e = left \<and> q = pos)
         \<or> (\<exists>op p1 r p2. eat tokens pos SYMBOL None = Done (op, p1)
               \<and> parse_addition n tokens p1 = Done (r, p2)
               \<and> comparison_loop n tokens p2 (BinaryOp (snd op) left r) = Done (e, q))"
proof (cases "current_token tokens pos")
  case None
  with assms show ?thesis by (simp add: comparison_loop.simps)
next
  case (Some t)
  show ?thesis
  proof (cases "snd t \<in> set [''=='', ''!='', ''<'', ''>'', ''<='', ''>='']")
    case True
    from assms have "bind (eat tokens pos SYMBOL None) (\<lambda>(op, pos1).
               bind (parse_addition n tokens pos1) (\<lambda>(right, pos2).
               comparison_loop n tokens pos2 (BinaryOp (snd op) left right))) = Done (e, q)"
      by (simp only: comparison_loop.simps(2) Some option.case True if_True)
    then show ?thesis by (auto simp: bind_Done)
  next
    case False
    from assms have "Done (left, pos) = Done (e, q)"
      by (simp only: comparison_loop.simps(2) Some option.case False if_False)
    then show ?thesis by simp
  qed
qed

lemma addition_loop_Done:
  assumes "addition_loop (Suc n) tokens pos left = Done (e, q)"
  shows "(e = left \<and> q = pos)
         \<or> (\<exists>op p1 r p2. eat tokens pos SYMBOL None = Done (op, p1)
               \<and> parse_multiplication n tokens p1 = Done (r, p2)
               \<and> addition_loop n tokens p2 (BinaryOp (snd op) left r) = Done (e, q))"
proof (cases "current_token tokens pos")
  case None
  with assms show ?thesis by (simp add: addition_loop.simps)
next
  case (Some t)
  show ?thesis
  proof (cases "snd t \<in> set [''+'', ''-'']")
    case True
    from assms have "bind (eat tokens pos SYMBOL None) (\<lambda>(op, pos1).
               bind (parse_multiplication n tokens pos1) (\<lambda>(right, pos2).
               addition_loop n tokens pos2 (BinaryOp (snd op) left right))) = Done (e, q)"
      by (simp only: addition_loop.simps(2) Some option.case True if_True)
    then show ?thesis by (auto simp: bind_Done)
  next
    case False
    from assms have "Done (left, pos) = Done (e, q)"
      by (simp only: addition_loop.simps(2) Some option.case False if_False)
    then show ?thesis by simp
  qed
qed

lemma multiplication_loop_Done:
  assumes "multiplication_loop (Suc n) tokens pos left = Done (e, q)"
  shows "(e = left \<and> q = pos)
         \<or> (\<exists>op p1 r p2. eat tokens pos SYMBOL None = Done (op, p1)
               \<and> parse_primary n tokens p1 = Done (r, p2)
               \<and> multiplication_loop n tokens p2 (BinaryOp (snd op) left r) = Done (e, q))"
proof (cases "current_token tokens pos")
  case None
  with assms show ?thesis by (simp add: multiplication_loop.simps)
next
  case (Some t)
  show ?thesis
  proof (cases "snd t \<in> set [''*'', ''/'']")
    case True
    from assms have "bind (eat tokens pos SYMBOL None) (\<lambda>(op, pos1).
               bind (parse_primary n tokens pos1) (\<lambda>(right, pos2).
               multiplication_loop n tokens pos2 (BinaryOp (snd op) left right))) = Done (e, q)"
      by (simp only: multiplication_loop.simps(2) Some option.case True if_True)
    then show ?thesis by (auto simp: bind_Done)
  next
    case False
    from assms have "Done (left, pos) = Done (e, q)"
      by (simp only: multiplication_loop.simps(2) Some option.case False if_False)
    then show ?thesis by simp
  qed
qed

lemma parse_primary_Done:
  assumes "parse_primary (Suc n) tokens pos = Done (e, q)"
  shows "(\<exists>v. e = Number v) \<or> (\<exists>x. e = Variable x)
         \<or> (\<exists>p1 p2. parse_expression n tokens p1 = Done (e, p2))"
  using assms unfolding parse_primary.simps(2)
  by (auto simp: bind_Done split: option.splits if_splits)


lemma expression_good:
  assumes nole: "\<forall>t\<in>set tokens. snd t \<noteq> ''<='' \<and> snd t \<noteq> ''>=''"
  shows "(\<forall>pos e p. parse_expression n tokens pos = Done (e, p) \<longrightarrow> good e)
   \<and> (\<forall>pos e p. parse_comparison n tokens pos = Done (e, p) \<longrightarrow> good e)
   \<and> (\<forall>pos left e p. good left \<longrightarrow> comparison_loop n tokens pos left = Done (e, p) \<longrightarrow> good e)
   \<and> (\<forall>pos e p. parse_addition n tokens pos = Done (e, p) \<longrightarrow> good e)
   \<and> (\<forall>pos left e p. good left \<longrightarrow> addition_loop n tokens pos left = Done (e, p) \<longrightarrow> good e)
   \<and> (\<forall>pos e p. parse_multiplication n tokens pos = Done (e, p) \<longrightarrow> good e)
   \<and> (\<forall>pos left e p. good left \<longrightarrow> multiplication_loop n tokens pos left = Done (e, p) \<longrightarrow> good e)
   \<and> (\<forall>pos e p. parse_primary n tokens pos = Done (e, p) \<longrightarrow> good e)"
proof (induction n)
  case 0
  show ?case
    by (simp add: parse_expression.simps parse_comparison.simps comparison_loop.simps
        parse_addition.simps addition_loop.simps parse_multiplication.simps
        multiplication_loop.simps parse_primary.simps)
next
  case (Suc n)
  note e = Suc [THEN conjunct1, rule_format]
  note c = Suc [THEN conjunct2, THEN conjunct1, rule_format]
  note cl = Suc [THEN conjunct2, THEN conjunct2, THEN conjunct1, rule_format]
  note a = Suc [THEN conjunct2, THEN conjunct2, THEN conjunct2, THEN conjunct1, rule_format]
  note al = Suc [THEN conjunct2, THEN conjunct2, THEN conjunct2, THEN conjunct2, THEN conjunct1, rule_format]
  note m = Suc [THEN conjunct2, THEN conjunct2, THEN conjunct2, THEN conjunct2, THEN conjunct2, THEN conjunct1, rule_format]
  note ml = Suc [THEN conjunct2, THEN conjunct2, THEN conjunct2, THEN conjunct2, THEN conjunct2, THEN conjunct2, THEN conjunct1, rule_format]
  note p = Suc [THEN conjunct2, THEN conjunct2, THEN conjunct2, THEN conjunct2, THEN conjunct2, THEN conjunct2, THEN conjunct2, rule_format]
  have op: "snd t \<noteq> ''<='' \<and> snd t \<noteq> ''>=''" if "eat tokens pos k v = Done (t, q)" for pos k v t q
    using eat_Done [OF that] nole by auto
  have 1: "good e" if "parse_expression (Suc n) tokens pos = Done (e, q)" for pos e q
    using that c by (simp add: parse_expression.simps)
  have 2: "good e" if "parse_comparison (Suc n) tokens pos = Done (e, q)" for pos e q
  proof -
    from that obtain l p1 where "parse_addition n tokens pos = Done (l, p1)"
      and "comparison_loop n tokens p1 l = Done (e, q)"
      by (auto simp: parse_comparison.simps bind_Done)
    then show ?thesis using a cl by blast
  qed
  have 3: "good e" if l: "good left" and r: "comparison_loop (Suc n) tokens pos left = Done (e, q)"
    for pos left e q
    using comparison_loop_Done [OF r]
  proof (elim disjE exE conjE)
    assume "e = left" with l show ?thesis by simp
  next
    fix op p1 rt p2
    assume eat: "eat tokens pos SYMBOL None = Done (op, p1)"
      and opd: "parse_addition n tokens p1 = Done (rt, p2)"
      and rest: "comparison_loop n tokens p2 (BinaryOp (snd op) left rt) = Done (e, q)"
    have "good (BinaryOp (snd op) left rt)"
      using l a [OF opd] op [OF eat] by (simp add: good_BinaryOp)
    then show ?thesis using rest by (rule cl)
  qed
  have 4: "good e" if "parse_addition (Suc n) tokens pos = Done (e, q)" for pos e q
  proof -
    from that obtain l p1 where "parse_multiplication n tokens pos = Done (l, p1)"
      and "addition_loop n tokens p1 l = Done (e, q)"
      by (auto simp: parse_addition.simps bind_Done)
    then show ?thesis using m al by blast
  qed
  have 5: "good e" if l: "good left" and r: "addition_loop (Suc n) tokens pos left = Done (e, q)"
    for pos left e q
    using addition_loop_Done [OF r]
  proof (elim disjE exE conjE)
    assume "e = left" with l show ?thesis by simp
  next
    fix op p1 rt p2
    assume eat: "eat tokens pos SYMBOL None = Done (op, p1)"
      and opd: "parse_multiplication n tokens p1 = Done (rt, p2)"
      and rest: "addition_loop n tokens p2 (BinaryOp (snd op) left rt) = Done (e, q)"
    have "good (BinaryOp (snd op) left rt)"
      using l m [OF opd] op [OF eat] by (simp add: good_BinaryOp)
    then show ?thesis using rest by (rule al)
  qed
  have 6: "good e" if "parse_multiplication (Suc n) tokens pos = Done (e, q)" for pos e q
  proof -
    from that obtain l p1 where "parse_primary n tokens pos = Done (l, p1)"
      and "multiplication_loop n tokens p1 l = Done (e, q)"
      by (auto simp: parse_multiplication.simps bind_Done)
    then show ?thesis using p ml by blast
  qed
  have 7: "good e" if l: "good left" and r: "multiplication_loop (Suc n) tokens pos left = Done (e, q)"
    for pos left e q
    using multiplication_loop_Done [OF r]
  proof (elim disjE exE conjE)
    assume "e = left" with l show ?thesis by simp
  next
    fix op p1 rt p2
    assume eat: "eat tokens pos SYMBOL None = Done (op, p1)"
      and opd: "parse_primary n tokens p1 = Done (rt, p2)"
      and rest: "multiplication_loop n tokens p2 (BinaryOp (snd op) left rt) = Done (e, q)"
    have "good (BinaryOp (snd op) left rt)"
      using l p [OF opd] op [OF eat] by (simp add: good_BinaryOp)
    then show ?thesis using rest by (rule ml)
  qed
  have 8: "good e" if "parse_primary (Suc n) tokens pos = Done (e, q)" for pos e q
    using parse_primary_Done [OF that] e by (auto simp: good_def)
  show ?case
    by (intro conjI allI impI) (erule 1 2 4 6 8 | erule (1) 3 5 7)+
qed

lemma tokenize_token_ok: "tokenize src = Inr tokens \<Longrightarrow> \<forall>t\<in>set tokens. token_ok t"
  unfolding tokenize_def by (erule tokenize_loop_token_ok) simp

text \<open>
  C4. When \<open>tokenize\<close> succeeds, every symbol token carries one of the registered symbols,
  and no token of any kind carries the lexeme \<open><=\<close> or \<open>>=\<close>. Hence, on the tokens of the
  lexer, the test of the comparison loop holds for a token exactly when its lexeme is one
  of \<open>==\<close>, \<open>!=\<close>, \<open><\<close>, \<open>>\<close>, and no expression parsed from them, at any position and
  with any fuel, contains a binary operation with operator \<open><=\<close> or \<open>>=\<close>.
\<close>

theorem lexer_symbols_registered:
  assumes "tokenize src = Inr tokens"
  shows "(\<forall>t\<in>set tokens. fst t = SYMBOL \<longrightarrow> snd t \<in> set symbols)
    \<and> (\<forall>t\<in>set tokens. snd t \<noteq> ''<='' \<and> snd t \<noteq> ''>='')
    \<and> (\<forall>pos t. current_token tokens pos = Some t \<longrightarrow>
          (snd t \<in> set [''=='', ''!='', ''<'', ''>'', ''<='', ''>=''])
          = (snd t \<in> set [''=='', ''!='', ''<'', ''>'']))
    \<and> (\<forall>n pos e p. parse_expression n tokens pos = Done (e, p) \<longrightarrow>
          ''<='' \<notin> set (operators e) \<and> ''>='' \<notin> set (operators e))"
proof -
  have ok: "\<forall>t\<in>set tokens. token_ok t"
    using assms by (rule tokenize_token_ok)
  then have a: "\<forall>t\<in>set tokens. fst t = SYMBOL \<longrightarrow> snd t \<in> set symbols"
    and b: "\<forall>t\<in>set tokens. snd t \<noteq> ''<='' \<and> snd t \<noteq> ''>=''"
    by (simp_all add: token_ok_def)
  have c: "(snd t \<in> set [''=='', ''!='', ''<'', ''>'', ''<='', ''>=''])
          = (snd t \<in> set [''=='', ''!='', ''<'', ''>''])"
    if "current_token tokens pos = Some t" for pos t
  proof -
    from that have "t \<in> set tokens"
      by (auto simp: current_token_def split: if_splits)
    with b have "snd t \<noteq> ''<='' \<and> snd t \<noteq> ''>=''" by blast
    then show ?thesis by auto
  qed
  have d: "''<='' \<notin> set (operators e) \<and> ''>='' \<notin> set (operators e)"
    if "parse_expression n tokens pos = Done (e, p)" for n pos e p
    using expression_good [OF b, of n, THEN conjunct1, rule_format, OF that]
    by (simp add: good_def)
  show ?thesis
    using a b c d by blast
qed

theorem lexer_symbols_registered_witness:
  "tokenize ''a<=b'' = Inr [(IDENTIFIER, ''a''), (SYMBOL, ''<''), (SYMBOL, ''=''), (IDENTIFIER, ''b'')]
   \<and> \<not> (\<exists>t\<in>set [(IDENTIFIER, ''a''), (SYMBOL, ''<''), (SYMBOL, ''=''), (IDENTIFIER, ''b'')].
           snd t = ''<='' \<or> snd t = ''>='')
   \<and> list_all (\<lambda>t. fst t = SYMBOL \<longrightarrow> snd t \<in> set symbols)
        [(IDENTIFIER, ''a''), (SYMBOL, ''<''), (SYMBOL, ''=''), (IDENTIFIER, ''b'')]"
proof -
  have t: "tokenize ''a<=b''
           = Inr [(IDENTIFIER, ''a''), (SYMBOL, ''<''), (SYMBOL, ''=''), (IDENTIFIER, ''b'')]"
    by code_simp
  from lexer_symbols_registered [OF t] t show ?thesis
    by (simp only: list_all_iff) blast
qed

section \<open>Lexical errors\<close>

lemma lexed_advance:
  assumes "pos \<le> pos'" and "\<And>k. pos \<le> k \<Longrightarrow> k < pos' \<Longrightarrow> consumable (src ! k)"
    and "lexed src pos' res"
  shows "lexed src pos res"
proof -
  from assms(3) obtain j where j: "pos' \<le> j" "list_all (\<lambda>k. consumable (src ! k)) [pos'..<j]"
    and r: "case res of Inr r \<Rightarrow> length src \<le> j
            | Inl e \<Rightarrow> j < length src \<and> e = UnknownChar (src ! j) \<and> no_rule src j"
    unfolding lexed_def by blast
  have "consumable (src ! k)" if "pos \<le> k" "k < j" for k
  proof (cases "k < pos'")
    case True
    with that show ?thesis by (intro assms(2))
  next
    case False
    with that j(2) show ?thesis by (simp add: list_all_iff)
  qed
  then have "list_all (\<lambda>k. consumable (src ! k)) [pos..<j]"
    by (simp add: list_all_iff)
  with assms(1) j(1) r show ?thesis
    unfolding lexed_def by (intro exI [of _ j]) simp
qed

lemma isdigit_isalnum: "isdigit c \<Longrightarrow> isalnum c"
  by (simp add: isalnum_def)

lemma symbol_chars: "s \<in> set symbols \<Longrightarrow> c \<in> set s \<Longrightarrow> c \<in> set (map hd symbols)"
  by (auto simp: symbols_def)

lemma startswith_nth:
  assumes "startswith src s pos" and "pos \<le> k" and "k < pos + length s"
  shows "src ! k = s ! (k - pos) \<and> k < length src"
proof -
  let ?d = "drop pos src"
  from assms(1) have eq: "take (length s) ?d = s" by (simp add: startswith_def)
  then have "length (take (length s) ?d) = length s" by simp
  then have "length s \<le> length ?d" by simp
  with assms(2,3) have lt: "k - pos < length ?d" "k - pos < length s" "k < length src"
    by auto
  have "s ! (k - pos) = take (length s) ?d ! (k - pos)" by (simp only: eq)
  also have "\<dots> = ?d ! (k - pos)" using lt by simp
  also have "\<dots> = src ! k" using assms(2) lt by simp
  finally show ?thesis using lt by simp
qed

lemma startswith_consumable:
  assumes "startswith src s pos" and "s \<in> set sorted_symbols" and "pos \<le> k"
    and "k < pos + length s"
  shows "consumable (src ! k)"
proof -
  from startswith_nth [OF assms(1,3,4)] have "src ! k = s ! (k - pos)" by simp
  moreover have "s ! (k - pos) \<in> set s" using assms(3,4) by (intro nth_mem) arith
  moreover have "s \<in> set symbols" using assms(2) by (simp add: set_sorted_symbols)
  ultimately have "src ! k \<in> set (map hd symbols)"
    using symbol_chars [of s "s ! (k - pos)"] by simp
  then show ?thesis unfolding consumable_def by blast
qed

lemma find_None_no_rule:
  assumes "find (\<lambda>smb. startswith src smb pos) sorted_symbols = None"
    and "\<not> isspace (src ! pos)" "\<not> isalpha (src ! pos)" "\<not> isdigit (src ! pos)"
  shows "no_rule src pos"
  using assms by (simp add: no_rule_def find_None_iff set_sorted_symbols list_all_iff)

lemma tokenize_loop_lexed: "lexed src pos (tokenize_loop src pos tokens)"
proof (induction src pos tokens rule: tokenize_loop.induct)
  case (1 src pos tokens)
  note eq = tokenize_loop.simps [of src pos tokens]
  show ?case
  proof (cases "pos < length src")
    case False
    then have "tokenize_loop src pos tokens = Inr tokens" by (simp add: eq)
    with False show ?thesis
      unfolding lexed_def by (intro exI [of _ pos]) simp
  next
    case len: True
    show ?thesis
    proof (cases "isspace (src ! pos)")
      case True
      have "lexed src (pos + 1) (tokenize_loop src (pos + 1) tokens)"
        using len True by (rule "1.IH"(1))
      then have "lexed src pos (tokenize_loop src (pos + 1) tokens)"
      proof (rule lexed_advance [rotated 2])
        fix k assume "pos \<le> k" "k < pos + 1"
        then have "k = pos" by simp
        with True show "consumable (src ! k)" by (simp add: consumable_def)
      qed simp
      with len True show ?thesis by (simp add: eq)
    next
      case nsp: False
      show ?thesis
      proof (cases "isalpha (src ! pos)")
        case alpha: True
        let ?p = "scan_while (\<lambda>c. isalnum c \<or> c = CHR ''_'') src pos"
        let ?v = "slice src pos ?p"
        let ?tok = "(if ?v \<in> set lexer_keywords then KEYWORD else IDENTIFIER, ?v)"
        have adv: "lexed src pos res" if "lexed src ?p res" for res
          using _ _ that
        proof (rule lexed_advance)
          show "pos \<le> ?p" by (rule scan_while_ge)
        next
          fix k assume "pos \<le> k" "k < ?p"
          then have "isalnum (src ! k) \<or> src ! k = CHR ''_''" by (rule scan_while_all)
          then show "consumable (src ! k)" by (auto simp: consumable_def)
        qed
        show ?thesis
        proof (cases "?v \<in> set lexer_keywords")
          case True
          have "lexed src ?p (tokenize_loop src ?p (tokens @ [(KEYWORD, ?v)]))"
            by (rule "1.IH"(2) [OF len nsp alpha refl refl refl True])
          then show ?thesis using len nsp alpha True by (simp add: eq Let_def adv)
        next
          case False
          have "lexed src ?p (tokenize_loop src ?p (tokens @ [(IDENTIFIER, ?v)]))"
            by (rule "1.IH"(3) [OF len nsp alpha refl refl refl False])
          then show ?thesis using len nsp alpha False by (simp add: eq Let_def adv)
        qed
      next
        case nalpha: False
        show ?thesis
        proof (cases "isdigit (src ! pos)")
          case digit: True
          let ?p = "scan_while isdigit src pos"
          have "lexed src ?p (tokenize_loop src ?p (tokens @ [(NUMBER, slice src pos ?p)]))"
            by (rule "1.IH"(4) [OF len nsp nalpha digit refl refl])
          then have "lexed src pos (tokenize_loop src ?p (tokens @ [(NUMBER, slice src pos ?p)]))"
          proof (rule lexed_advance [rotated 2])
            show "pos \<le> ?p" by (rule scan_while_ge)
          next
            fix k assume "pos \<le> k" "k < ?p"
            then have "isdigit (src ! k)" by (rule scan_while_all)
            then show "consumable (src ! k)" by (simp add: consumable_def isdigit_isalnum)
          qed
          then show ?thesis using len nsp nalpha digit by (simp add: eq Let_def)
        next
          case ndigit: False
          show ?thesis
          proof (cases "find (\<lambda>smb. startswith src smb pos) sorted_symbols")
            case None
            then have "tokenize_loop src pos tokens = Inl (UnknownChar (src ! pos))"
              using len nsp nalpha ndigit by (simp add: eq)
            moreover have "no_rule src pos"
              using None nsp nalpha ndigit by (rule find_None_no_rule)
            ultimately show ?thesis
              using len unfolding lexed_def by (intro exI [of _ pos]) simp
          next
            case (Some s)
            then have mem: "s \<in> set sorted_symbols" and sw: "startswith src s pos"
              by (auto simp: find_Some_iff)
            have "lexed src (pos + length s)
                    (tokenize_loop src (pos + length s) (tokens @ [(SYMBOL, s)]))"
              by (rule "1.IH"(5) [OF len nsp nalpha ndigit Some])
            then have "lexed src pos
                    (tokenize_loop src (pos + length s) (tokens @ [(SYMBOL, s)]))"
            proof (rule lexed_advance [rotated 2])
              fix k assume "pos \<le> k" "k < pos + length s"
              with sw mem show "consumable (src ! k)" by (rule startswith_consumable)
            qed simp
            then show ?thesis using len nsp nalpha ndigit Some by (simp add: eq)
          qed
        qed
      qed
    qed
  qed
qed

text \<open>
  C2, as the claim states it, fails. The exception of the lexer is built from the
  offending character alone: the sources \<open>@\<close> and \<open> @\<close> (the character at offsets 0 and 1)
  fail with the very same error, so the error does not report an offset. And a source with
  a character that is neither whitespace, nor a letter, nor a digit, nor the start of a
  registered symbol need not fail: the underscore is such a character, and \<open>a_\<close> is one
  identifier.
\<close>

theorem lex_error_without_offset_counterexample:
  "tokenize ''@'' = Inl (UnknownChar CHR ''@'')
   \<and> tokenize '' @'' = Inl (UnknownChar CHR ''@'')
   \<and> tokenize ''a_'' = Inr [(IDENTIFIER, ''a_'')]
   \<and> \<not> isspace CHR ''_'' \<and> \<not> isalpha CHR ''_'' \<and> \<not> isdigit CHR ''_''
   \<and> CHR ''_'' \<notin> set (map hd symbols)"
  by code_simp

text \<open>
  C2, amended. If the source contains a character that is neither whitespace, nor
  alphanumeric, nor an underscore, nor the start of a registered symbol, then \<open>tokenize\<close>
  fails, and the error reports one character of the source and nothing else: the
  character at the position \<open>j\<close> where the lexer stopped. That position is at or before
  the given character, and no rule of the lexer applies there: the character is not
  whitespace, not a letter, not a digit, and no registered symbol starts there.
\<close>

theorem tokenize_unknown_character:
  assumes "i < length src" and "\<not> isspace (src ! i)" and "\<not> isalnum (src ! i)"
    and "src ! i \<noteq> CHR ''_''" and "src ! i \<notin> set (map hd symbols)"
  shows "\<exists>j. j \<le> i \<and> tokenize src = Inl (UnknownChar (src ! j))
             \<and> \<not> isspace (src ! j) \<and> \<not> isalpha (src ! j) \<and> \<not> isdigit (src ! j)
             \<and> list_all (\<lambda>smb. \<not> startswith src smb j) symbols"
proof -
  have bad: "\<not> consumable (src ! i)"
    using assms(2-5) by (simp add: consumable_def)
  have "lexed src 0 (tokenize src)"
    unfolding tokenize_def by (rule tokenize_loop_lexed)
  then obtain j where c: "list_all (\<lambda>k. consumable (src ! k)) [0..<j]"
    and r: "case tokenize src of Inr r \<Rightarrow> length src \<le> j
            | Inl e \<Rightarrow> j < length src \<and> e = UnknownChar (src ! j) \<and> no_rule src j"
    unfolding lexed_def by blast
  have ji: "j \<le> i"
  proof (rule ccontr)
    assume "\<not> j \<le> i"
    then have "i \<in> set [0..<j]" by simp
    with c have "consumable (src ! i)" unfolding list_all_iff by blast
    with bad show False by simp
  qed
  show ?thesis
  proof (cases "tokenize src")
    case (Inr toks)
    with r ji assms(1) show ?thesis by simp
  next
    case (Inl e)
    with r have "e = UnknownChar (src ! j)" and "no_rule src j" by simp_all
    with Inl ji show ?thesis
      by (intro exI [of _ j]) (simp add: no_rule_def)
  qed
qed

theorem tokenize_unknown_character_witness:
  "2 < length ''a @'' \<and> \<not> isspace (''a @'' ! 2) \<and> \<not> isalnum (''a @'' ! 2)
   \<and> ''a @'' ! 2 \<noteq> CHR ''_'' \<and> ''a @'' ! 2 \<notin> set (map hd symbols)
   \<and> (\<exists>j. j \<le> 2 \<and> tokenize ''a @'' = Inl (UnknownChar (''a @'' ! j)))"
proof -
  have h: "2 < length ''a @''" "\<not> isspace (''a @'' ! 2)" "\<not> isalnum (''a @'' ! 2)"
    "''a @'' ! 2 \<noteq> CHR ''_''" "''a @'' ! 2 \<notin> set (map hd symbols)"
    by (simp_all add: isspace_def isalnum_def isalpha_def isdigit_def symbols_def)
  from tokenize_unknown_character [OF h] h show ?thesis by blast
qed

section \<open>Left associativity\<close>

lemma current_token_append: "current_token (pre @ x # xs) (length pre) = Some x"
  by (simp add: current_token_def)

lemma current_token_end: "current_token tokens (length tokens) = None"
  by (simp add: current_token_def)

lemma eat_symbol:
  "current_token tokens pos = Some (SYMBOL, op)
   \<Longrightarrow> eat tokens pos SYMBOL None = Done ((SYMBOL, op), Suc pos)"
  by (simp add: eat_def)

lemma parse_primary_single:
  assumes "current_token tokens pos = Some t" and "primary_of t = Some e"
  shows "parse_primary (Suc n) tokens pos = Done (e, Suc pos)"
proof (cases "fst t = NUMBER")
  case True
  with assms(2) obtain v where "py_int (snd t) = Some v" "e = Number v"
    by (auto simp: primary_of_def)
  with assms(1) True show ?thesis
    by (simp add: parse_primary.simps eat_def bind_def)
next
  case False
  with assms(2) have "fst t = IDENTIFIER" "e = Variable (snd t)"
    by (auto simp: primary_of_def split: if_splits)
  with assms(1) show ?thesis
    by (simp add: parse_primary.simps eat_def bind_def)
qed

lemma loop_chain:
  fixes loop :: "nat \<Rightarrow> token list \<Rightarrow> nat \<Rightarrow> expr \<Rightarrow> (expr \<times> nat) outcome"
    and operand :: "nat \<Rightarrow> token list \<Rightarrow> nat \<Rightarrow> (expr \<times> nat) outcome"
  assumes unfold: "\<And>n tokens pos left. loop (Suc n) tokens pos left =
       (case current_token tokens pos of
          None \<Rightarrow> Done (left, pos)
        | Some token \<Rightarrow>
            if snd token \<in> set ops
            then bind (eat tokens pos SYMBOL None) (\<lambda>(op, pos1).
                 bind (operand n tokens pos1) (\<lambda>(right, pos2).
                 loop n tokens pos2 (BinaryOp (snd op) left right)))
            else Done (left, pos))"
    and operand: "\<And>n tokens pos t e. c \<le> n \<Longrightarrow> current_token tokens pos = Some t
       \<Longrightarrow> primary_of t = Some e \<Longrightarrow> chain_next ops tokens (Suc pos)
       \<Longrightarrow> operand n tokens pos = Done (e, Suc pos)"
  shows "list_all (\<lambda>(op, t). op \<in> set ops \<and> primary_of t \<noteq> None) rest
    \<Longrightarrow> length rest + c + 1 \<le> n
    \<Longrightarrow> loop n (pre @ concat (map (\<lambda>(op, t). [(SYMBOL, op), t]) rest)) (length pre) left
        = Done (left_chain left rest, length pre + 2 * length rest)"
proof (induction rest arbitrary: pre left n)
  case Nil
  then obtain n' where n: "n = Suc n'" by (cases n) auto
  show ?case
    by (simp add: n unfold current_token_end [of pre, simplified] left_chain_def)
next
  case (Cons x rest)
  obtain op t where x: "x = (op, t)" by (cases x)
  from Cons.prems(1) x obtain e where op: "op \<in> set ops" and e: "primary_of t = Some e"
    and rest: "list_all (\<lambda>(op, t). op \<in> set ops \<and> primary_of t \<noteq> None) rest"
    by auto
  from Cons.prems(2) obtain n' where n: "n = Suc n'" and n': "length rest + c + 1 \<le> n'"
    by (cases n) auto
  let ?f = "\<lambda>(op, t). [(SYMBOL, op), t]"
  let ?tail = "concat (map ?f rest)"
  let ?pos = "length pre"
  define toks where "toks = pre @ concat (map ?f (x # rest))"
  have toks: "toks = pre @ (SYMBOL, op) # t # ?tail"
    by (simp add: toks_def x)
  have toks': "toks = (pre @ [(SYMBOL, op)]) @ t # ?tail"
    by (simp add: toks_def x)
  have toks'': "toks = (pre @ [(SYMBOL, op), t]) @ ?tail"
    by (simp add: toks_def x)
  have cur: "current_token toks ?pos = Some (SYMBOL, op)"
    unfolding toks by (rule current_token_append)
  have cur1: "current_token toks (Suc ?pos) = Some t"
    using current_token_append [of "pre @ [(SYMBOL, op)]" t ?tail]
    unfolding toks' by simp
  have nxt: "chain_next ops toks (Suc (Suc ?pos))"
  proof (cases rest)
    case Nil
    then have "current_token toks (Suc (Suc ?pos)) = None"
      by (simp add: toks current_token_def)
    then show ?thesis by (simp add: chain_next_def)
  next
    case (Cons y ys)
    obtain op' t' where y: "y = (op', t')" by (cases y)
    with rest Cons have "op' \<in> set ops" by simp
    moreover have "current_token toks (Suc (Suc ?pos)) = Some (SYMBOL, op')"
      using current_token_append [of "pre @ [(SYMBOL, op), t]" "(SYMBOL, op')" "t' # concat (map ?f ys)"]
      by (simp add: toks Cons y)
    ultimately show ?thesis unfolding chain_next_def by blast
  qed
  have opd: "operand n' toks (Suc ?pos) = Done (e, Suc (Suc ?pos))"
    using _ cur1 e nxt by (rule operand) (use n' in simp)
  have ih: "loop n' toks (Suc (Suc ?pos)) (BinaryOp op left e)
            = Done (left_chain (BinaryOp op left e) rest, Suc (Suc ?pos) + 2 * length rest)"
    using Cons.IH [OF rest n', of "pre @ [(SYMBOL, op), t]" "BinaryOp op left e"]
    unfolding toks'' by simp
  have "loop n toks ?pos left = loop n' toks (Suc (Suc ?pos)) (BinaryOp op left e)"
    unfolding n unfold [of n' toks ?pos left] cur
    using op by (simp add: eat_symbol [OF cur] opd bind_def)
  also note ih
  finally show ?case
    by (simp add: left_chain_def x e toks_def)
qed

lemma chain_next_not_in:
  assumes "chain_next ops tokens pos" and "set ops \<inter> set ops' = {}"
  shows "case current_token tokens pos of None \<Rightarrow> True | Some t \<Rightarrow> snd t \<notin> set ops'"
  using assms by (auto simp: chain_next_def)

lemma multiplication_loop_exit:
  assumes "chain_next ops tokens pos" and "set ops \<inter> set [''*'', ''/''] = {}"
  shows "multiplication_loop (Suc n) tokens pos left = Done (left, pos)"
  using chain_next_not_in [OF assms]
  by (auto simp: multiplication_loop.simps split: option.splits)

lemma addition_loop_exit:
  assumes "chain_next ops tokens pos" and "set ops \<inter> set [''+'', ''-''] = {}"
  shows "addition_loop (Suc n) tokens pos left = Done (left, pos)"
  using chain_next_not_in [OF assms]
  by (auto simp: addition_loop.simps split: option.splits)

lemma comparison_loop_exit:
  assumes "current_token tokens pos = None"
  shows "comparison_loop (Suc n) tokens pos left = Done (left, pos)"
  using assms by (simp add: comparison_loop.simps)

lemma chain_next_end: "chain_next ops tokens (length tokens)"
  by (simp add: chain_next_def current_token_end)

lemma parse_multiplication_single:
  assumes "2 \<le> n" and "current_token tokens pos = Some t" and "primary_of t = Some e"
    and "chain_next ops tokens (Suc pos)" and "set ops \<inter> set [''*'', ''/''] = {}"
  shows "parse_multiplication n tokens pos = Done (e, Suc pos)"
proof -
  from assms(1) obtain m where n: "n = Suc (Suc m)"
    by (metis Suc_le_D numeral_2_eq_2 Suc_le_mono)
  show ?thesis
    unfolding n parse_multiplication.simps
    by (simp add: parse_primary_single [OF assms(2,3)] bind_def
        multiplication_loop_exit [OF assms(4,5)])
qed

lemma parse_addition_single:
  assumes "3 \<le> n" and "current_token tokens pos = Some t" and "primary_of t = Some e"
    and "chain_next ops tokens (Suc pos)" and "set ops \<inter> set [''*'', ''/''] = {}"
    and "set ops \<inter> set [''+'', ''-''] = {}"
  shows "parse_addition n tokens pos = Done (e, Suc pos)"
proof -
  from assms(1) obtain m where n: "n = Suc m" and m: "2 \<le> m"
    by (cases n) auto
  from m obtain k where k: "m = Suc k" by (cases m) auto
  have "parse_multiplication m tokens pos = Done (e, Suc pos)"
    using m assms(2,3,4,5) by (rule parse_multiplication_single)
  then show ?thesis
    unfolding n parse_addition.simps
    by (simp add: bind_def k addition_loop_exit [OF assms(4,6)])
qed

lemma infix_tokens_length: "length (infix_tokens t0 rest) = 1 + 2 * length rest"
  by (induction rest) (auto simp: infix_tokens_def)

lemma infix_tokens_head: "current_token (infix_tokens t0 rest) 0 = Some t0"
  by (simp add: infix_tokens_def current_token_def)

lemma infix_tokens_next:
  "list_all (\<lambda>(op, t). op \<in> set ops \<and> primary_of t \<noteq> None) rest
   \<Longrightarrow> chain_next ops (infix_tokens t0 rest) (Suc 0)"
  by (cases rest) (auto simp: infix_tokens_def chain_next_def current_token_def)

lemma multiplication_chain:
  assumes "list_all (\<lambda>(op, t). op \<in> set [''*'', ''/''] \<and> primary_of t \<noteq> None) rest"
    and "length rest + 2 \<le> n"
  shows "multiplication_loop n (pre @ concat (map (\<lambda>(op, t). [(SYMBOL, op), t]) rest))
           (length pre) left
         = Done (left_chain left rest, length pre + 2 * length rest)"
proof (rule loop_chain [where c = 1 and operand = parse_primary])
  show "multiplication_loop (Suc n) tokens pos left =
       (case current_token tokens pos of
          None \<Rightarrow> Done (left, pos)
        | Some token \<Rightarrow>
            if snd token \<in> set [''*'', ''/'']
            then bind (eat tokens pos SYMBOL None) (\<lambda>(op, pos1).
                 bind (parse_primary n tokens pos1) (\<lambda>(right, pos2).
                 multiplication_loop n tokens pos2 (BinaryOp (snd op) left right)))
            else Done (left, pos))" for n tokens pos left
    by (rule multiplication_loop.simps)
next
  fix n :: nat and tokens :: "token list" and pos :: nat and t :: token and e :: expr
  assume "1 \<le> n" "current_token tokens pos = Some t" "primary_of t = Some e"
  then show "parse_primary n tokens pos = Done (e, Suc pos)"
    by (cases n) (simp_all add: parse_primary_single)
qed (use assms in simp_all)

lemma addition_chain:
  assumes "list_all (\<lambda>(op, t). op \<in> set [''+'', ''-''] \<and> primary_of t \<noteq> None) rest"
    and "length rest + 3 \<le> n"
  shows "addition_loop n (pre @ concat (map (\<lambda>(op, t). [(SYMBOL, op), t]) rest))
           (length pre) left
         = Done (left_chain left rest, length pre + 2 * length rest)"
proof (rule loop_chain [where c = 2 and operand = parse_multiplication])
  show "addition_loop (Suc n) tokens pos left =
       (case current_token tokens pos of
          None \<Rightarrow> Done (left, pos)
        | Some token \<Rightarrow>
            if snd token \<in> set [''+'', ''-'']
            then bind (eat tokens pos SYMBOL None) (\<lambda>(op, pos1).
                 bind (parse_multiplication n tokens pos1) (\<lambda>(right, pos2).
                 addition_loop n tokens pos2 (BinaryOp (snd op) left right)))
            else Done (left, pos))" for n tokens pos left
    by (rule addition_loop.simps)
next
  fix n :: nat and tokens :: "token list" and pos :: nat and t :: token and e :: expr
  assume "2 \<le> n" "current_token tokens pos = Some t" "primary_of t = Some e"
    "chain_next [''+'', ''-''] tokens (Suc pos)"
  then show "parse_multiplication n tokens pos = Done (e, Suc pos)"
    by (rule parse_multiplication_single) simp
qed (use assms in simp_all)

lemma comparison_chain:
  assumes "list_all (\<lambda>(op, t). op \<in> set [''=='', ''!='', ''<'', ''>'', ''<='', ''>='']
                       \<and> primary_of t \<noteq> None) rest"
    and "length rest + 4 \<le> n"
  shows "comparison_loop n (pre @ concat (map (\<lambda>(op, t). [(SYMBOL, op), t]) rest))
           (length pre) left
         = Done (left_chain left rest, length pre + 2 * length rest)"
proof (rule loop_chain [where c = 3 and operand = parse_addition])
  show "comparison_loop (Suc n) tokens pos left =
       (case current_token tokens pos of
          None \<Rightarrow> Done (left, pos)
        | Some token \<Rightarrow>
            if snd token \<in> set [''=='', ''!='', ''<'', ''>'', ''<='', ''>='']
            then bind (eat tokens pos SYMBOL None) (\<lambda>(op, pos1).
                 bind (parse_addition n tokens pos1) (\<lambda>(right, pos2).
                 comparison_loop n tokens pos2 (BinaryOp (snd op) left right)))
            else Done (left, pos))" for n tokens pos left
    by (rule comparison_loop.simps)
next
  fix n :: nat and tokens :: "token list" and pos :: nat and t :: token and e :: expr
  assume "3 \<le> n" "current_token tokens pos = Some t" "primary_of t = Some e"
    "chain_next [''=='', ''!='', ''<'', ''>'', ''<='', ''>=''] tokens (Suc pos)"
  then show "parse_addition n tokens pos = Done (e, Suc pos)"
    by (rule parse_addition_single) simp_all
qed (use assms in simp_all)

lemma addition_loop_end:
  "1 \<le> m \<Longrightarrow> addition_loop m tokens (length tokens) left = Done (left, length tokens)"
  by (cases m) (simp_all add: addition_loop.simps current_token_end)

lemma comparison_loop_end:
  "1 \<le> m \<Longrightarrow> comparison_loop m tokens (length tokens) left = Done (left, length tokens)"
  by (cases m) (simp_all add: comparison_loop.simps current_token_end)

lemma lift_addition:
  "parse_multiplication m tokens pos = Done (e, length tokens) \<Longrightarrow> 1 \<le> m
   \<Longrightarrow> parse_addition (Suc m) tokens pos = Done (e, length tokens)"
  by (simp add: parse_addition.simps bind_def addition_loop_end)

lemma lift_comparison:
  "parse_addition m tokens pos = Done (e, length tokens) \<Longrightarrow> 1 \<le> m
   \<Longrightarrow> parse_comparison (Suc m) tokens pos = Done (e, length tokens)"
  by (simp add: parse_comparison.simps bind_def comparison_loop_end)

lemma lift_expression:
  "parse_comparison m tokens pos = Done r \<Longrightarrow> parse_expression (Suc m) tokens pos = Done r"
  by (simp add: parse_expression.simps)

lemma infix_tokens_append:
  "infix_tokens t0 rest = [t0] @ concat (map (\<lambda>(op, t). [(SYMBOL, op), t]) rest)"
  by (simp add: infix_tokens_def)

lemma list_all_conj:
  "list_all (\<lambda>(op, t). P op) rest \<Longrightarrow> list_all (\<lambda>(op, t). Q t) rest
   \<Longrightarrow> list_all (\<lambda>(op, t). P op \<and> Q t) rest"
  by (auto simp: list_all_iff)

lemma multiplication_tier:
  assumes t0: "primary_of t0 = Some e0"
    and rest: "list_all (\<lambda>(op, t). op \<in> set [''*'', ''/''] \<and> primary_of t \<noteq> None) rest"
    and n: "length rest + 3 \<le> n"
  shows "parse_multiplication n (infix_tokens t0 rest) 0
         = Done (left_chain e0 rest, length (infix_tokens t0 rest))"
proof -
  from n obtain m where m: "n = Suc m" "length rest + 2 \<le> m" by (cases n) auto
  then obtain k where k: "m = Suc k" by (cases m) auto
  have p: "parse_primary m (infix_tokens t0 rest) 0 = Done (e0, Suc 0)"
    unfolding k using infix_tokens_head t0 by (rule parse_primary_single)
  have l: "multiplication_loop m (infix_tokens t0 rest) (Suc 0) e0
           = Done (left_chain e0 rest, 1 + 2 * length rest)"
    using multiplication_chain [OF rest m(2), of "[t0]" e0]
    by (simp add: infix_tokens_append)
  show ?thesis
    unfolding m(1) parse_multiplication.simps
    by (simp add: p l bind_def infix_tokens_length)
qed

lemma addition_tier:
  assumes t0: "primary_of t0 = Some e0"
    and rest: "list_all (\<lambda>(op, t). op \<in> set [''+'', ''-''] \<and> primary_of t \<noteq> None) rest"
    and n: "length rest + 4 \<le> n"
  shows "parse_addition n (infix_tokens t0 rest) 0
         = Done (left_chain e0 rest, length (infix_tokens t0 rest))"
proof -
  from n obtain m where m: "n = Suc m" "length rest + 3 \<le> m" by (cases n) auto
  have p: "parse_multiplication m (infix_tokens t0 rest) 0 = Done (e0, Suc 0)"
    using _ infix_tokens_head t0 infix_tokens_next [OF rest]
    by (rule parse_multiplication_single) (use m in simp_all)
  have l: "addition_loop m (infix_tokens t0 rest) (Suc 0) e0
           = Done (left_chain e0 rest, 1 + 2 * length rest)"
    using addition_chain [OF rest m(2), of "[t0]" e0]
    by (simp add: infix_tokens_append)
  show ?thesis
    unfolding m(1) parse_addition.simps
    by (simp add: p l bind_def infix_tokens_length)
qed

lemma comparison_tier:
  assumes t0: "primary_of t0 = Some e0"
    and rest: "list_all (\<lambda>(op, t). op \<in> set [''=='', ''!='', ''<'', ''>'', ''<='', ''>='']
                         \<and> primary_of t \<noteq> None) rest"
    and n: "length rest + 5 \<le> n"
  shows "parse_comparison n (infix_tokens t0 rest) 0
         = Done (left_chain e0 rest, length (infix_tokens t0 rest))"
proof -
  from n obtain m where m: "n = Suc m" "length rest + 4 \<le> m" by (cases n) auto
  have p: "parse_addition m (infix_tokens t0 rest) 0 = Done (e0, Suc 0)"
    using _ infix_tokens_head t0 infix_tokens_next [OF rest]
    by (rule parse_addition_single) (use m in simp_all)
  have l: "comparison_loop m (infix_tokens t0 rest) (Suc 0) e0
           = Done (left_chain e0 rest, 1 + 2 * length rest)"
    using comparison_chain [OF rest m(2), of "[t0]" e0]
    by (simp add: infix_tokens_append)
  show ?thesis
    unfolding m(1) parse_comparison.simps
    by (simp add: p l bind_def infix_tokens_length)
qed

text \<open>
  C9. Take a token sequence \<open>t0 op1 t1 ... opk tk\<close> whose operands are numbers or
  identifiers and whose operators all belong to one precedence tier: all in \<open>*\<close>, \<open>/\<close>, or
  all in \<open>+\<close>, \<open>-\<close>, or all comparison operators. With fuel at least \<open>k + 6\<close>,
  \<open>parse_expression\<close> consumes the whole sequence and returns the left-leaning chain
  \<open>BinaryOp(opk, ... BinaryOp(op1, e0, e1) ..., ek)\<close>. In particular the source \<open>1-2-3\<close>
  tokenizes to five tokens that parse, for every fuel from 20 up, to
  \<open>BinaryOp(-, BinaryOp(-, Number 1, Number 2), Number 3)\<close>.
\<close>

theorem binary_operators_left_associative:
  assumes t0: "primary_of t0 = Some e0"
    and opds: "list_all (\<lambda>(op, t). primary_of t \<noteq> None) rest"
    and n: "length rest + 6 \<le> n"
  shows "(list_all (\<lambda>(op, t). op \<in> set [''*'', ''/'']) rest \<longrightarrow>
            parse_expression n (infix_tokens t0 rest) 0
            = Done (left_chain e0 rest, length (infix_tokens t0 rest)))
    \<and> (list_all (\<lambda>(op, t). op \<in> set [''+'', ''-'']) rest \<longrightarrow>
            parse_expression n (infix_tokens t0 rest) 0
            = Done (left_chain e0 rest, length (infix_tokens t0 rest)))
    \<and> (list_all (\<lambda>(op, t). op \<in> set [''=='', ''!='', ''<'', ''>'', ''<='', ''>='']) rest \<longrightarrow>
            parse_expression n (infix_tokens t0 rest) 0
            = Done (left_chain e0 rest, length (infix_tokens t0 rest)))
    \<and> tokenize ''1-2-3''
        = Inr [(NUMBER, ''1''), (SYMBOL, ''-''), (NUMBER, ''2''), (SYMBOL, ''-''), (NUMBER, ''3'')]
    \<and> parse_expression (20 + k)
          [(NUMBER, ''1''), (SYMBOL, ''-''), (NUMBER, ''2''), (SYMBOL, ''-''), (NUMBER, ''3'')] 0
        = Done (BinaryOp ''-'' (BinaryOp ''-'' (Number 1) (Number 2)) (Number 3), 5)"
proof -
  let ?toks = "infix_tokens t0 rest"
  let ?r = "Done (left_chain e0 rest, length ?toks)"
  from n obtain n1 where n1: "n = Suc n1" "length rest + 5 \<le> n1" by (cases n) auto
  then obtain n2 where n2: "n1 = Suc n2" "length rest + 4 \<le> n2" by (cases n1) auto
  then obtain n3 where n3: "n2 = Suc n3" "length rest + 3 \<le> n3" by (cases n2) auto
  have mul: "parse_expression n ?toks 0 = ?r"
    if "list_all (\<lambda>(op, t). op \<in> set [''*'', ''/'']) rest"
  proof -
    have "parse_multiplication n3 ?toks 0 = ?r"
      using t0 list_all_conj [OF that opds] n3(2) by (rule multiplication_tier)
    then have "parse_addition n2 ?toks 0 = ?r"
      unfolding n3(1) by (rule lift_addition) (use n3 in simp)
    then have "parse_comparison n1 ?toks 0 = ?r"
      unfolding n2(1) by (rule lift_comparison) (use n2 in simp)
    then show ?thesis unfolding n1(1) by (rule lift_expression)
  qed
  have add: "parse_expression n ?toks 0 = ?r"
    if "list_all (\<lambda>(op, t). op \<in> set [''+'', ''-'']) rest"
  proof -
    have "parse_addition n2 ?toks 0 = ?r"
      using t0 list_all_conj [OF that opds] n2(2) by (rule addition_tier)
    then have "parse_comparison n1 ?toks 0 = ?r"
      unfolding n2(1) by (rule lift_comparison) (use n2 in simp)
    then show ?thesis unfolding n1(1) by (rule lift_expression)
  qed
  have cmp: "parse_expression n ?toks 0 = ?r"
    if "list_all (\<lambda>(op, t). op \<in> set [''=='', ''!='', ''<'', ''>'', ''<='', ''>='']) rest"
  proof -
    have "parse_comparison n1 ?toks 0 = ?r"
      using t0 list_all_conj [OF that opds] n1(2) by (rule comparison_tier)
    then show ?thesis unfolding n1(1) by (rule lift_expression)
  qed
  let ?c = "[(NUMBER, ''1''), (SYMBOL, ''-''), (NUMBER, ''2''), (SYMBOL, ''-''), (NUMBER, ''3'')]"
  have t: "tokenize ''1-2-3'' = Inr ?c"
    by code_simp
  have "parse_expression 20 ?c 0
        = Done (BinaryOp ''-'' (BinaryOp ''-'' (Number 1) (Number 2)) (Number 3), 5)"
    by code_simp
  then have c: "parse_expression (20 + k) ?c 0
        = Done (BinaryOp ''-'' (BinaryOp ''-'' (Number 1) (Number 2)) (Number 3), 5)"
    by (rule parse_expression_more_fuel) simp
  show ?thesis
    using mul add cmp t c by blast
qed

theorem binary_operators_left_associative_witness:
  "primary_of (NUMBER, ''1'') = Some (Number 1)
   \<and> list_all (\<lambda>(op, t). primary_of t \<noteq> None) [(''-'', (NUMBER, ''2'')), (''-'', (NUMBER, ''3''))]
   \<and> length [(''-'', (NUMBER, ''2'')), (''-'', (NUMBER, ''3''))] + 6 \<le> 8
   \<and> list_all (\<lambda>(op, t). op \<in> set [''+'', ''-''])
        [(''-'', (NUMBER, ''2'')), (''-'', (NUMBER, ''3''))]
   \<and> parse_expression 8
        [(NUMBER, ''1''), (SYMBOL, ''-''), (NUMBER, ''2''), (SYMBOL, ''-''), (NUMBER, ''3'')] 0
      = Done (BinaryOp ''-'' (BinaryOp ''-'' (Number 1) (Number 2)) (Number 3), 5)"
proof -
  let ?rest = "[(''-'', (NUMBER, ''2'')), (''-'', (NUMBER, ''3''))]"
  have h1: "primary_of (NUMBER, ''1'') = Some (Number 1)"
    by code_simp
  have p2: "primary_of (NUMBER, ''2'') = Some (Number 2)"
    and p3: "primary_of (NUMBER, ''3'') = Some (Number 3)"
    by code_simp+
  have h2: "list_all (\<lambda>(op, t). primary_of t \<noteq> None) ?rest"
    by (simp add: p2 p3)
  have h3: "length ?rest + 6 \<le> 8"
    by simp
  have h4: "list_all (\<lambda>(op, t). op \<in> set [''+'', ''-'']) ?rest"
    by simp
  have toks: "infix_tokens (NUMBER, ''1'') ?rest
     = [(NUMBER, ''1''), (SYMBOL, ''-''), (NUMBER, ''2''), (SYMBOL, ''-''), (NUMBER, ''3'')]"
    by (simp add: infix_tokens_def)
  have chain: "left_chain (Number 1) ?rest
     = BinaryOp ''-'' (BinaryOp ''-'' (Number 1) (Number 2)) (Number 3)"
    by (simp add: left_chain_def p2 p3)
  from binary_operators_left_associative [OF h1 h2 h3, THEN conjunct2, THEN conjunct1] h4
  have "parse_expression 8 (infix_tokens (NUMBER, ''1'') ?rest) 0
        = Done (left_chain (Number 1) ?rest, length (infix_tokens (NUMBER, ''1'') ?rest))"
    by (rule mp)
  then have "parse_expression 8
        [(NUMBER, ''1''), (SYMBOL, ''-''), (NUMBER, ''2''), (SYMBOL, ''-''), (NUMBER, ''3'')] 0
      = Done (BinaryOp ''-'' (BinaryOp ''-'' (Number 1) (Number 2)) (Number 3), 5)"
    by (simp only: toks chain) simp
  with h1 h2 h3 h4 show ?thesis by (intro conjI)
qed

end
